theory Spec2Isabelle
  imports Main
begin

section \<open>Cards and the deck\<close>

text \<open>
  \<^verbatim>\<open>SUITS = ['H','C','S','D']\<close> and \<^verbatim>\<open>RANKS = ['2',...,'9','T','J','Q','K','A']\<close>.
  A card is \<^verbatim>\<open>{ rank, suit, id }\<close>; the id is the concatenation of rank and suit
  and carries no further information.
\<close>

datatype suit = H | C | S | D

datatype rank = R2 | R3 | R4 | R5 | R6 | R7 | R8 | R9 | RT | RJ | RQ | RK | RA

record card =
  rank :: rank
  suit :: suit

definition SUITS :: "suit list" where
  "SUITS = [H, C, S, D]"

definition RANKS :: "rank list" where
  "RANKS = [R2, R3, R4, R5, R6, R7, R8, R9, RT, RJ, RQ, RK, RA]"

definition createDeck :: "card list" where
  "createDeck = concat (map (\<lambda>s. map (\<lambda>r. \<lparr>rank = r, suit = s\<rparr>) RANKS) SUITS)"

fun getRankValue :: "rank \<Rightarrow> int" where
  "getRankValue RA = 14"
| "getRankValue RK = 13"
| "getRankValue RQ = 12"
| "getRankValue RJ = 11"
| "getRankValue RT = 10"
| "getRankValue R9 = 9"
| "getRankValue R8 = 8"
| "getRankValue R7 = 7"
| "getRankValue R6 = 6"
| "getRankValue R5 = 5"
| "getRankValue R4 = 4"
| "getRankValue R3 = 3"
| "getRankValue R2 = 2"

section \<open>Array.prototype.sort with a comparator\<close>

text \<open>
  The JavaScript sort is stable. For a comparator \<open>cmp\<close> (negative: first argument
  goes first) it is modelled by a stable insertion sort.
\<close>

fun insertBy :: "('a \<Rightarrow> 'a \<Rightarrow> int) \<Rightarrow> 'a \<Rightarrow> 'a list \<Rightarrow> 'a list" where
  "insertBy cmp x [] = [x]"
| "insertBy cmp x (y # ys) = (if cmp x y \<le> 0 then x # y # ys else y # insertBy cmp x ys)"

definition jsSort :: "('a \<Rightarrow> 'a \<Rightarrow> int) \<Rightarrow> 'a list \<Rightarrow> 'a list" where
  "jsSort cmp xs = foldr (insertBy cmp) xs []"

section \<open>Hand evaluation\<close>

text \<open>Tiers: 8 straight flush, 7 quads, 6 full house, 5 flush, 4 straight, 3 trips,
  2 two pair, 1 pair, 0 high card.\<close>

record hand_result =
  tier :: int
  kickers :: "int list"
  name :: string

text \<open>
  The body of \<^verbatim>\<open>evaluate5CardHand\<close> once every card is known to be defined.
  The program applies it to arrays of five cards only; there \<open>groups ! 0\<close> exists, and
  \<open>groups ! 1\<close> exists whenever the largest group has fewer than five cards.
  \<^verbatim>\<open>Object.entries(counts)\<close> lists integer keys in ascending order. In the two-pair
  branch \<^verbatim>\<open>ranks.find\<close> is only consulted when there is no third group, which cannot
  happen with five cards (it would yield \<^verbatim>\<open>undefined\<close>, written 0 here).
\<close>

definition evaluate5Defined :: "card list \<Rightarrow> hand_result" where
  "evaluate5Defined cards =
    (let sorted = jsSort (\<lambda>a b. getRankValue (rank b) - getRankValue (rank a)) cards;
         ranks = map (\<lambda>c. getRankValue (rank c)) sorted;
         suits = map suit sorted;
         isFlush = list_all (\<lambda>s. s = hd suits) suits;
         consecutive = list_all (\<lambda>i. i + 1 < length ranks \<and> ranks ! i - ranks ! (i + 1) = 1) [0..<4];
         wheel = (\<not> consecutive \<and> take 5 ranks = [14, 5, 4, 3, 2]);
         isStraight = (consecutive \<or> wheel);
         straightKickers = (if wheel then [5, 4, 3, 2, 1] else ranks);
         groups = jsSort (\<lambda>a b. if snd b - snd a \<noteq> 0 then snd b - snd a else fst b - fst a)
                    (map (\<lambda>r. (r, int (count_list ranks r))) (sort (remdups ranks)));
         g0 = groups ! 0; g1 = groups ! 1
     in
       if isFlush \<and> isStraight then \<lparr>tier = 8, kickers = straightKickers, name = ''Straight Flush''\<rparr>
       else if snd g0 = 4 then \<lparr>tier = 7, kickers = [fst g0, fst g1], name = ''Four of a Kind''\<rparr>
       else if snd g0 = 3 \<and> snd g1 = 2
         then \<lparr>tier = 6, kickers = [fst g0, fst g1], name = ''Full House''\<rparr>
       else if isFlush then \<lparr>tier = 5, kickers = ranks, name = ''Flush''\<rparr>
       else if isStraight then \<lparr>tier = 4, kickers = straightKickers, name = ''Straight''\<rparr>
       else if snd g0 = 3
         then \<lparr>tier = 3,
               kickers = fst g0 # jsSort (\<lambda>a b. b - a) (filter (\<lambda>r. r \<noteq> fst g0) ranks),
               name = ''Three of a Kind''\<rparr>
       else if snd g0 = 2 \<and> snd g1 = 2
         then \<lparr>tier = 2,
               kickers = [fst g0, fst g1,
                          (if 2 < length groups then fst (groups ! 2)
                           else (case List.find (\<lambda>r. r \<noteq> fst g0 \<and> r \<noteq> fst g1) ranks of
                                   Some r \<Rightarrow> r | None \<Rightarrow> 0))],
               name = ''Two Pair''\<rparr>
       else if snd g0 = 2
         then \<lparr>tier = 1,
               kickers = fst g0 # jsSort (\<lambda>a b. b - a) (filter (\<lambda>r. r \<noteq> fst g0) ranks),
               name = ''Pair''\<rparr>
       else \<lparr>tier = 0, kickers = ranks, name = ''High Card''\<rparr>)"

text \<open>
  Cards that were popped from an exhausted deck are \<^verbatim>\<open>undefined\<close> (\<open>None\<close>); reading
  \<^verbatim>\<open>c.rank\<close> of such a card throws a TypeError, which is the result \<open>None\<close>.
\<close>

definition evaluate5CardHand :: "card option list \<Rightarrow> hand_result option" where
  "evaluate5CardHand cards = map_option evaluate5Defined (those cards)"

fun getCombinations :: "'a list \<Rightarrow> nat \<Rightarrow> 'a list list" where
  "getCombinations xs (Suc 0) = map (\<lambda>el. [el]) xs"
| "getCombinations [] k = []"
| "getCombinations (el # rest) k =
     map (\<lambda>comb. el # comb) (getCombinations rest (k - 1)) @ getCombinations rest k"

text \<open>Where \<^verbatim>\<open>b.kickers[i]\<close> is \<^verbatim>\<open>undefined\<close> both comparisons are false.\<close>

fun compareKickers :: "int list \<Rightarrow> int list \<Rightarrow> int" where
  "compareKickers [] bs = 0"
| "compareKickers (a # as) [] = compareKickers as []"
| "compareKickers (a # as) (b # bs) =
     (if a > b then 1 else if b > a then -1 else compareKickers as bs)"

definition compareHandsResults :: "hand_result \<Rightarrow> hand_result \<Rightarrow> int" where
  "compareHandsResults a b =
     (if tier a > tier b then 1
      else if tier b > tier a then -1
      else compareKickers (kickers a) (kickers b))"

definition betterHand :: "hand_result option \<Rightarrow> hand_result \<Rightarrow> hand_result" where
  "betterHand bestHand result =
     (case bestHand of
        None \<Rightarrow> result
      | Some best \<Rightarrow> if compareHandsResults result best > 0 then result else best)"

fun bestOfCombos :: "card option list list \<Rightarrow> hand_result option \<Rightarrow> hand_result option option" where
  "bestOfCombos [] bestHand = Some bestHand"
| "bestOfCombos (combo # combos) bestHand =
     (case evaluate5CardHand combo of
        None \<Rightarrow> None
      | Some result \<Rightarrow> bestOfCombos combos (Some (betterHand bestHand result)))"

text \<open>
  \<^verbatim>\<open>evaluateHand\<close>: \<open>None\<close> is a thrown TypeError. With five or more cards there is
  at least one combination, so \<^verbatim>\<open>bestHand\<close> is not \<^verbatim>\<open>null\<close> at the end.
\<close>

definition evaluateHand :: "card option list \<Rightarrow> card option list \<Rightarrow> hand_result option" where
  "evaluateHand holeCards communityCards =
     (let allCards = holeCards @ communityCards in
      if length allCards < 5 then Some \<lparr>tier = 0, kickers = [], name = ''Waiting...''\<rparr>
      else (case bestOfCombos (getCombinations allCards 5) None of
              None \<Rightarrow> None
            | Some bestHand \<Rightarrow> bestHand))"

section \<open>Players and game state\<close>

datatype player_status = Active | Folded | AllIn | Eliminated

datatype action = FOLD | CHECK | CALL | BET | RAISE | ALL_IN | UnknownAction

datatype phase = Idle | Preflop | Flop | Turn | River | Showdown

text \<open>The display strings written to \<^verbatim>\<open>currentAction\<close> and \<^verbatim>\<open>message\<close>.\<close>

datatype action_label =
    NoLabel | SmallBlindLabel | BigBlindLabel | FoldLabel | CheckLabel | CallLabel
  | AllInLabel | AllInTo int | BetTo int | RaiseTo int | WinnerLabel

datatype player_name = You | Bot nat | Named string

datatype message = NoMessage | WinsAllFolded player_name | SplitPot string | WinnerIs string

text \<open>
  A player object. \<^verbatim>\<open>id\<close> is \<open>pid\<close> and \<^verbatim>\<open>name\<close> is \<open>pname\<close> (\<^verbatim>\<open>'You'\<close>,
  \<^verbatim>\<open>`Bot ${i}`\<close> or a name given by the caller). The fields
  \<open>hand\<close>, \<open>chips\<close>, \<open>bet\<close>, \<open>totalInvested\<close> and \<open>folded\<close> are the mirror fields
  written by \<^verbatim>\<open>syncLegacyFields\<close>. \<^verbatim>\<open>handStrength\<close> is absent until a showdown assigns
  it. The engine never reads or writes \<^verbatim>\<open>positionIndex\<close>, \<^verbatim>\<open>isHuman\<close>,
  \<^verbatim>\<open>aggressiveLevel\<close> and \<^verbatim>\<open>tightLevel\<close>; they are left out.
\<close>

record player =
  pid :: int
  pname :: player_name
  stack :: int
  holeCards :: "card option list"
  currentBet :: int
  totalCommitted :: int
  status :: player_status
  handStrength :: "hand_result option"
  hand :: "card option list"
  chips :: int
  bet :: int
  totalInvested :: int
  folded :: bool
  currentAction :: action_label
  showCards :: bool

record betting =
  highestBetThisRound :: int
  minRaiseAmount :: int
  lastFullRaiseSize :: int
  actedSinceLastFullRaise :: "int set"
  lastReopenerIndex :: int
  startingIndex :: int
  currentActorIndex :: int
  hasActedThisRound :: bool

record pot =
  amount :: int
  eligiblePlayers :: "int list"

record game_state =
  deck :: "card list"
  communityCards :: "card option list"
  phase :: phase
  dealerIndex :: int
  sbAmount :: int
  bbAmount :: int
  players :: "player list"
  betting :: betting
  pots :: "pot list"
  winners :: "int list"
  handOver :: bool
  message :: message
  oddChipStartIndex :: int

definition clampInt :: "int \<Rightarrow> int \<Rightarrow> int \<Rightarrow> int" where
  "clampInt n lo hi = max lo (min hi n)"

text \<open>\<^verbatim>\<open>createPlayers(count, startingStack)\<close>, with the default \<^verbatim>\<open>names = []\<close>.\<close>

definition createPlayers :: "nat \<Rightarrow> int \<Rightarrow> player list" where
  "createPlayers count startingStack =
     map (\<lambda>i. \<lparr>pid = int i,
               pname = (if i = 0 then You else Bot i),
               stack = startingStack, holeCards = [], currentBet = 0, totalCommitted = 0,
               status = Active, handStrength = None,
               hand = [], chips = startingStack, bet = 0, totalInvested = 0, folded = False,
               currentAction = NoLabel, showCards = False\<rparr>) [0..<count]"

definition isInHand :: "player \<Rightarrow> bool" where
  "isInHand p = (status p = Active \<or> status p = AllIn)"

definition canAct :: "player \<Rightarrow> bool" where
  "canAct p = (status p = Active \<and> stack p > 0)"

definition isFolded :: "player \<Rightarrow> bool" where
  "isFolded p = (status p = Folded)"

definition syncLegacyFields :: "player \<Rightarrow> player" where
  "syncLegacyFields p =
     p\<lparr>chips := stack p, hand := holeCards p, bet := currentBet p,
       totalInvested := totalCommitted p, folded := (status p = Folded)\<rparr>"

definition createInitialGameState :: "player list \<Rightarrow> int \<Rightarrow> int \<Rightarrow> int \<Rightarrow> game_state" where
  "createInitialGameState ps sb bb dealer =
     \<lparr>deck = [], communityCards = [], phase = Idle, dealerIndex = dealer,
      sbAmount = sb, bbAmount = bb, players = map syncLegacyFields ps,
      betting = \<lparr>highestBetThisRound = 0, minRaiseAmount = bb, lastFullRaiseSize = bb,
                 actedSinceLastFullRaise = {}, lastReopenerIndex = -1, startingIndex = -1,
                 currentActorIndex = -1, hasActedThisRound = False\<rparr>,
      pots = [], winners = [], handOver = False, message = NoMessage,
      oddChipStartIndex = dealer\<rparr>"

text \<open>
  \<^verbatim>\<open>arr[i]\<close> is \<^verbatim>\<open>undefined\<close> outside the array. The remainder \<^verbatim>\<open>a % n\<close> of
  JavaScript takes the sign of \<open>a\<close>; it is used with \<open>n\<close> the number of seats, and
  the callers deal with \<open>n = 0\<close> before it matters.
\<close>

definition at :: "'a list \<Rightarrow> int \<Rightarrow> 'a option" where
  "at xs i = (if 0 \<le> i \<and> i < int (length xs) then Some (xs ! nat i) else None)"

definition jsRem :: "int \<Rightarrow> int \<Rightarrow> int" where
  "jsRem a n = (if 0 \<le> a then a mod n else - ((- a) mod n))"

definition nextIndexClockwise :: "player list \<Rightarrow> int \<Rightarrow> int" where
  "nextIndexClockwise ps from = jsRem (from + 1) (int (length ps))"

text \<open>
  \<^verbatim>\<open>findNextToAct\<close>: the loop runs at most once per seat; \<open>None\<close> is the TypeError of
  \<^verbatim>\<open>canAct(undefined)\<close>, which a negative index causes.
\<close>

fun findLoop :: "player list \<Rightarrow> int \<Rightarrow> nat \<Rightarrow> int option" where
  "findLoop ps idx 0 = Some (-1)"
| "findLoop ps idx (Suc k) =
     (case at ps idx of
        None \<Rightarrow> None
      | Some p \<Rightarrow> if canAct p then Some idx else findLoop ps (nextIndexClockwise ps idx) k)"

definition findNextToAct :: "game_state \<Rightarrow> int \<Rightarrow> int option" where
  "findNextToAct state fromIndex =
     (if players state = [] then Some (-1)
      else findLoop (players state) (nextIndexClockwise (players state) fromIndex)
             (length (players state)))"

definition commitChips :: "player \<Rightarrow> int \<Rightarrow> player \<times> int" where
  "commitChips player amt =
     (let toCommit = min (stack player) (max 0 amt);
          p1 = player\<lparr>stack := stack player - toCommit,
                      currentBet := currentBet player + toCommit,
                      totalCommitted := totalCommitted player + toCommit\<rparr>;
          p2 = (if stack p1 = 0 \<and> status p1 = Active then p1\<lparr>status := AllIn\<rparr> else p1)
      in (syncLegacyFields p2, toCommit))"

text \<open>\<^verbatim>\<open>deck.pop()\<close> takes the last card; on an empty deck it yields \<^verbatim>\<open>undefined\<close>.\<close>

definition popCard :: "card list \<Rightarrow> card option \<times> card list" where
  "popCard d = (if d = [] then (None, []) else (Some (last d), butlast d))"

definition burnOne :: "game_state \<Rightarrow> game_state" where
  "burnOne state = (if length (deck state) > 0 then state\<lparr>deck := snd (popCard (deck state))\<rparr> else state)"

fun dealCommunity :: "game_state \<Rightarrow> nat \<Rightarrow> game_state" where
  "dealCommunity state 0 = state"
| "dealCommunity state (Suc n) =
     dealCommunity (state\<lparr>communityCards := communityCards state @ [fst (popCard (deck state))],
                          deck := snd (popCard (deck state))\<rparr>) n"

section \<open>Starting a hand\<close>

text \<open>
  One step of the dealing loop: seat \<^verbatim>\<open>(dealerIndex + offset) % seats\<close> receives the top
  card if it is active. The pair is the players and the deck.
\<close>

definition dealOne :: "int \<Rightarrow> nat \<Rightarrow> player list \<times> card list \<Rightarrow> (player list \<times> card list) option" where
  "dealOne dealer offset pd =
     (let ps = fst pd; d = snd pd;
          i = jsRem (dealer + int offset) (int (length ps)) in
      case at ps i of
        None \<Rightarrow> None
      | Some p \<Rightarrow>
          if status p = Active
          then Some (ps[nat i := syncLegacyFields (p\<lparr>holeCards := holeCards p @ [fst (popCard d)]\<rparr>)],
                     snd (popCard d))
          else Some (ps, d))"

fun dealPass :: "int \<Rightarrow> nat list \<Rightarrow> player list \<times> card list \<Rightarrow> (player list \<times> card list) option" where
  "dealPass dealer [] pd = Some pd"
| "dealPass dealer (offset # offsets) pd =
     (case dealOne dealer offset pd of
        None \<Rightarrow> None
      | Some pd' \<Rightarrow> dealPass dealer offsets pd')"

definition resetForHand :: "player \<Rightarrow> player" where
  "resetForHand p =
     syncLegacyFields
       (p\<lparr>status := (if stack p \<le> 0 then Eliminated else Active),
          holeCards := [], currentBet := 0, totalCommitted := 0,
          currentAction := NoLabel, showCards := False, folded := False\<rparr>)"

text \<open>
  Posting a blind at a seat: \<^verbatim>\<open>(P.status === ACTIVE) ? commitChips(P, amount) : 0\<close>.
  The result is the players and the chips posted.
\<close>

definition postBlind :: "player list \<Rightarrow> nat \<Rightarrow> int \<Rightarrow> player list \<times> int" where
  "postBlind ps i amt =
     (if status (ps ! i) = Active
      then (ps[i := fst (commitChips (ps ! i) amt)], snd (commitChips (ps ! i) amt))
      else (ps, 0))"

text \<open>
  \<^verbatim>\<open>startHand\<close>. The second argument is the deck that \<^verbatim>\<open>shuffleDeck(createDeck())\<close>
  returned. \<open>None\<close> is a TypeError: with no seat, or a dealer index below \<open>-1\<close>, the
  blind seats do not exist. With one seat both blinds are the same player object, which
  the updates by index reproduce.
\<close>

definition startHand :: "game_state \<Rightarrow> card list \<Rightarrow> game_state option" where
  "startHand state shuffled =
     (let ps0 = map resetForHand (players state);
          seats = length ps0;
          dealer = dealerIndex state in
      case dealPass dealer [1..<seats + 1] (ps0, shuffled) of
        None \<Rightarrow> None
      | Some pd1 \<Rightarrow>
      case dealPass dealer [1..<seats + 1] pd1 of
        None \<Rightarrow> None
      | Some pd2 \<Rightarrow>
          if seats = 0 then None
          else
            let sbIndex = jsRem (dealer + 1) (int seats);
                bbIndex = jsRem (dealer + 2) (int seats) in
            if at (fst pd2) sbIndex = None \<or> at (fst pd2) bbIndex = None then None
            else
              let sbRes = postBlind (fst pd2) (nat sbIndex) (sbAmount state);
                  bbRes = postBlind (fst sbRes) (nat bbIndex) (bbAmount state);
                  ps3 = fst bbRes;
                  ps4 = ps3[nat sbIndex :=
                          (ps3 ! nat sbIndex)\<lparr>currentAction := (if snd sbRes > 0 then SmallBlindLabel else NoLabel)\<rparr>];
                  ps5 = ps4[nat bbIndex :=
                          (ps4 ! nat bbIndex)\<lparr>currentAction := (if snd bbRes > 0 then BigBlindLabel else NoLabel)\<rparr>];
                  highest = max (currentBet (ps5 ! nat sbIndex)) (currentBet (ps5 ! nat bbIndex));
                  next = state\<lparr>handOver := False, winners := [], pots := [], communityCards := [],
                               phase := Preflop, message := NoMessage, deck := snd pd2,
                               players := ps5\<rparr>
              in case findNextToAct next bbIndex of
                   None \<Rightarrow> None
                 | Some first \<Rightarrow>
                     Some (next\<lparr>betting :=
                             \<lparr>highestBetThisRound = highest,
                              minRaiseAmount = bbAmount state,
                              lastFullRaiseSize = bbAmount state,
                              actedSinceLastFullRaise = {},
                              lastReopenerIndex = bbIndex,
                              startingIndex = first,
                              currentActorIndex = first,
                              hasActedThisRound = False\<rparr>\<rparr>))"

section \<open>Legal actions and the end of a betting round\<close>

record legal_actions =
  canFold :: bool
  canCheck :: bool
  canCall :: bool
  canBet :: bool
  canRaise :: bool
  canAllIn :: bool
  callAmount :: int
  minTotalBet :: int
  maxTotalBet :: int

definition getLegalActions :: "game_state \<Rightarrow> int \<Rightarrow> legal_actions" where
  "getLegalActions state playerIndex =
     (let none = \<lparr>canFold = False, canCheck = False, canCall = False, canBet = False,
                  canRaise = False, canAllIn = False, callAmount = 0, minTotalBet = 0,
                  maxTotalBet = 0\<rparr> in
      case at (players state) playerIndex of
        None \<Rightarrow> none
      | Some p \<Rightarrow>
          if \<not> canAct p \<or> handOver state then none
          else
            let highest = highestBetThisRound (betting state);
                callAmount = max 0 (highest - currentBet p);
                minRaise = minRaiseAmount (betting state);
                maxTotalBet = currentBet p + stack p;
                alreadyActed = (playerIndex \<in> actedSinceLastFullRaise (betting state))
            in \<lparr>canFold = True,
                canCheck = (callAmount = 0),
                canCall = (callAmount > 0 \<and> stack p > 0),
                canBet = (highest = 0 \<and> stack p > 0),
                canRaise = (highest > 0 \<and> \<not> alreadyActed \<and> maxTotalBet > highest),
                canAllIn = (stack p > 0),
                callAmount = callAmount,
                minTotalBet = highest + minRaise,
                maxTotalBet = maxTotalBet\<rparr>)"

definition allPlayersSettledToHighest :: "game_state \<Rightarrow> bool" where
  "allPlayersSettledToHighest state =
     list_all (\<lambda>p. isFolded p \<or> \<not> isInHand p \<or> status p = AllIn
                    \<or> currentBet p = highestBetThisRound (betting state))
       (players state)"

text \<open>\<^verbatim>\<open>lastReopenerIndex\<close> is a number in every state, so \<^verbatim>\<open>??\<close> never falls back.\<close>

definition bettingRoundShouldEnd :: "game_state \<Rightarrow> int \<Rightarrow> bool" where
  "bettingRoundShouldEnd state nextActorIndex =
     (if nextActorIndex = -1 then True
      else if \<not> hasActedThisRound (betting state) then False
      else if \<not> allPlayersSettledToHighest state then False
      else
        let highest = highestBetThisRound (betting state);
            endIndex = (if highest = 0 then startingIndex (betting state)
                        else lastReopenerIndex (betting state))
        in nextActorIndex = endIndex)"

definition resetBetsForNextStreet :: "game_state \<Rightarrow> game_state" where
  "resetBetsForNextStreet state =
     state\<lparr>players := map (\<lambda>p. syncLegacyFields (p\<lparr>currentBet := 0, bet := 0, currentAction := NoLabel\<rparr>))
                         (players state),
           betting := (betting state)\<lparr>highestBetThisRound := 0,
                                      minRaiseAmount := bbAmount state,
                                      lastFullRaiseSize := bbAmount state,
                                      actedSinceLastFullRaise := {},
                                      lastReopenerIndex := -1,
                                      hasActedThisRound := False\<rparr>\<rparr>"

section \<open>Side pots\<close>

record contributor =
  cid :: int
  committed :: int
  cfolded :: bool

definition contributorsOf :: "player list \<Rightarrow> contributor list" where
  "contributorsOf ps =
     map (\<lambda>p. \<lparr>cid = pid p, committed = totalCommitted p, cfolded = (status p = Folded)\<rparr>)
       (filter (\<lambda>p. totalCommitted p > 0) ps)"

text \<open>\<^verbatim>\<open>[...new Set(xs)]\<close> keeps the first occurrence of every value, in order.\<close>

definition setToArray :: "'a list \<Rightarrow> 'a list" where
  "setToArray xs = rev (remdups (rev xs))"

definition levelsOf :: "contributor list \<Rightarrow> int list" where
  "levelsOf contributors = jsSort (\<lambda>a b. a - b) (setToArray (map committed contributors))"

fun potsLoop :: "contributor list \<Rightarrow> int \<Rightarrow> int list \<Rightarrow> pot list" where
  "potsLoop contributors prev [] = []"
| "potsLoop contributors prev (level # levels) =
     (let eligibleContribs = filter (\<lambda>c. committed c \<ge> level) contributors;
          slice = level - prev;
          amt = slice * int (length eligibleContribs);
          elig = map cid (filter (\<lambda>c. \<not> cfolded c) eligibleContribs)
      in \<lparr>amount = amt, eligiblePlayers = elig\<rparr> # potsLoop contributors level levels)"

definition computeSidePots :: "player list \<Rightarrow> pot list" where
  "computeSidePots ps =
     (let contributors = contributorsOf ps in
      if contributors = [] then []
      else filter (\<lambda>p. amount p > 0) (potsLoop contributors 0 (levelsOf contributors)))"

section \<open>Awarding pots and resolving a hand\<close>

text \<open>
  \<^verbatim>\<open>players.find(p => p.id === id)\<close> returns a reference to the first player with that
  id; the reference is the index of that player.
\<close>

definition findById :: "player list \<Rightarrow> int \<Rightarrow> nat option" where
  "findById ps i = List.find (\<lambda>k. pid (ps ! k) = i) [0..<length ps]"

text \<open>The loop that keeps the best score; comparing an absent score throws.\<close>

fun pickWinners :: "player list \<Rightarrow> nat list \<Rightarrow> hand_result option \<Rightarrow> nat list \<Rightarrow> nat list option" where
  "pickWinners ps [] best ws = Some ws"
| "pickWinners ps (i # rest) best ws =
     (case handStrength (ps ! i) of
        None \<Rightarrow> None
      | Some h \<Rightarrow>
         (case best of
            None \<Rightarrow> None
          | Some b \<Rightarrow>
              let cmp = compareHandsResults h b in
              if cmp > 0 then pickWinners ps rest (Some h) [i]
              else if cmp = 0 then pickWinners ps rest best (ws @ [i])
              else pickWinners ps rest best ws))"

definition addToStack :: "int \<Rightarrow> player list \<Rightarrow> nat \<Rightarrow> player list" where
  "addToStack n ps w = ps[w := syncLegacyFields ((ps ! w)\<lparr>stack := stack (ps ! w) + n\<rparr>)]"

text \<open>The odd-chip walk: at most two rounds of the table, clockwise from the start seat.\<close>

fun oddChips :: "player list \<Rightarrow> nat list \<Rightarrow> int \<Rightarrow> int \<Rightarrow> nat \<Rightarrow> player list option" where
  "oddChips ps ws idx remainder 0 = Some ps"
| "oddChips ps ws idx remainder (Suc k) =
     (if remainder > 0 then
        (case at ps idx of
           None \<Rightarrow> None
         | Some seatPlayer \<Rightarrow>
             if list_ex (\<lambda>w. pid (ps ! w) = pid seatPlayer) ws
             then oddChips (addToStack 1 ps (nat idx)) ws (nextIndexClockwise ps idx) (remainder - 1) k
             else oddChips ps ws (nextIndexClockwise ps idx) remainder k)
      else Some ps)"

text \<open>\<^verbatim>\<open>awardPot\<close> returns the winners' ids; no eligible player gives \<^verbatim>\<open>undefined\<close>,
  which the caller reads as no winner.\<close>

definition awardPot :: "game_state \<Rightarrow> pot \<Rightarrow> int \<Rightarrow> (game_state \<times> int list) option" where
  "awardPot state pt oddStart =
     (let ps = players state;
          eligible = List.map_filter (findById ps) (eligiblePlayers pt) in
      case eligible of
        [] \<Rightarrow> Some (state, [])
      | e0 # rest \<Rightarrow>
         (case pickWinners ps rest (handStrength (ps ! e0)) [e0] of
            None \<Rightarrow> None
          | Some ws \<Rightarrow>
              let baseShare = amount pt div int (length ws);
                  remainder = amount pt - baseShare * int (length ws);
                  ps1 = foldl (addToStack baseShare) ps ws;
                  start = jsRem (oddStart + 1) (int (length ps))
              in case oddChips ps1 ws start remainder (length ps * 2) of
                   None \<Rightarrow> None
                 | Some ps2 \<Rightarrow>
                     let ps3 = foldl (\<lambda>qs w. qs[w := (qs ! w)\<lparr>currentAction := WinnerLabel\<rparr>]) ps2 ws
                     in Some (state\<lparr>players := ps3\<rparr>, map (\<lambda>w. pid (ps3 ! w)) ws)))"

fun evaluatePlayers :: "card option list \<Rightarrow> player list \<Rightarrow> player list option" where
  "evaluatePlayers community [] = Some []"
| "evaluatePlayers community (p # ps) =
     (if status p = Folded \<or> length (holeCards p) < 2 then
        map_option ((#) p) (evaluatePlayers community ps)
      else
        (case evaluateHand (holeCards p) community of
           None \<Rightarrow> None
         | Some h \<Rightarrow> map_option ((#) (p\<lparr>handStrength := Some h\<rparr>)) (evaluatePlayers community ps)))"

fun awardPots :: "game_state \<Rightarrow> pot list \<Rightarrow> int list \<Rightarrow> (game_state \<times> int list) option" where
  "awardPots state [] allWinners = Some (state, allWinners)"
| "awardPots state (pt # rest) allWinners =
     (case awardPot state pt (dealerIndex state) of
        None \<Rightarrow> None
      | Some (state', potWinners) \<Rightarrow> awardPots state' rest (setToArray (allWinners @ potWinners)))"

definition resolveHand :: "game_state \<Rightarrow> game_state option" where
  "resolveHand state =
     (let ps1 = map (\<lambda>p. syncLegacyFields (p\<lparr>showCards := (status p \<noteq> Folded)\<rparr>)) (players state) in
      case evaluatePlayers (communityCards state) ps1 of
        None \<Rightarrow> None
      | Some ps2 \<Rightarrow>
          let next = state\<lparr>phase := Showdown, handOver := True, players := ps2,
                           pots := computeSidePots ps2\<rparr> in
          (case awardPots next (pots next) [] of
             None \<Rightarrow> None
           | Some (next', ws) \<Rightarrow>
               let firstWinner = (case ws of [] \<Rightarrow> None | w # _ \<Rightarrow> findById (players next') w);
                   desc = (case firstWinner of
                             None \<Rightarrow> ''Hand''
                           | Some k \<Rightarrow>
                              (case handStrength (players next' ! k) of
                                 None \<Rightarrow> ''Hand''
                               | Some h \<Rightarrow> if name h = [] then ''Hand'' else name h))
               in Some (next'\<lparr>winners := ws,
                              message := (if length ws > 1 then SplitPot desc else WinnerIs desc)\<rparr>)))"

section \<open>Street advancement and actions\<close>

text \<open>
  \<^verbatim>\<open>advanceStreet\<close> returns \<^verbatim>\<open>false\<close> on the river, before any reset. In a phase that is
  none of the four streets no card is dealt and the reset still happens.
\<close>

definition advanceStreet :: "game_state \<Rightarrow> (bool \<times> game_state) option" where
  "advanceStreet state =
     (if phase state = River then Some (False, state)
      else
        let s1 = (if phase state = Preflop then (dealCommunity (burnOne state) 3)\<lparr>phase := Flop\<rparr>
                  else if phase state = Flop then (dealCommunity (burnOne state) 1)\<lparr>phase := Turn\<rparr>
                  else if phase state = Turn then (dealCommunity (burnOne state) 1)\<lparr>phase := River\<rparr>
                  else state);
            s2 = resetBetsForNextStreet s1
        in case findNextToAct s2 (dealerIndex s2) of
             None \<Rightarrow> None
           | Some starter \<Rightarrow>
               Some (True, s2\<lparr>betting := (betting s2)\<lparr>startingIndex := starter,
                                                     currentActorIndex := starter\<rparr>\<rparr>))"

definition maybeEndHandIfOneLeft :: "game_state \<Rightarrow> bool \<times> game_state" where
  "maybeEndHandIfOneLeft state =
     (let remaining = filter (\<lambda>p. isInHand p \<and> \<not> isFolded p) (players state) in
      if length remaining = 1
      then (True, state\<lparr>handOver := True, phase := Showdown, winners := [pid (hd remaining)],
                        message := WinsAllFolded (pname (hd remaining))\<rparr>)
      else (False, state))"

text \<open>
  The part of \<^verbatim>\<open>applyAction\<close> that resolves the action on the clone \<open>next\<close>, in which
  the seat is already marked as having acted: \<open>Return\<close> is an early \<^verbatim>\<open>return next\<close>,
  \<open>Proceed\<close> falls through to the end-of-hand and end-of-round checks.
\<close>

datatype resolution = Return game_state | Proceed game_state

definition setPlayer :: "game_state \<Rightarrow> int \<Rightarrow> player \<Rightarrow> game_state" where
  "setPlayer state i p = state\<lparr>players := (players state)[nat i := p]\<rparr>"

definition resolveAction ::
  "game_state \<Rightarrow> int \<Rightarrow> player \<Rightarrow> action \<Rightarrow> int \<Rightarrow> int \<Rightarrow> int \<Rightarrow> legal_actions \<Rightarrow> resolution" where
  "resolveAction next playerIndex p act amt highest callAmt legal =
     (if act = FOLD then
        Proceed (setPlayer next playerIndex
                   (syncLegacyFields (p\<lparr>status := Folded, currentAction := FoldLabel\<rparr>)))
      else if act = CHECK then
        (if \<not> canCheck legal then Return next
         else Proceed (setPlayer next playerIndex (syncLegacyFields (p\<lparr>currentAction := CheckLabel\<rparr>))))
      else if act = CALL then
        (if \<not> canCall legal \<and> callAmt > 0 then Return next
         else
           let p1 = fst (commitChips p callAmt); committed = snd (commitChips p callAmt);
               p2 = p1\<lparr>currentAction := (if status p1 = AllIn \<and> committed < callAmt
                                          then AllInLabel else CallLabel)\<rparr>
           in Proceed (setPlayer next playerIndex (syncLegacyFields p2)))
      else if act = BET then
        (if \<not> canBet legal then Return next
         else
           let betSize = clampInt amt 1 (currentBet p + stack p);
               minBet = bbAmount next;
               finalBet = max minBet betSize;
               p1 = fst (commitChips p finalBet); committed = snd (commitChips p finalBet);
               b = (betting next)\<lparr>highestBetThisRound := currentBet p1,
                                  minRaiseAmount := committed,
                                  lastFullRaiseSize := committed,
                                  actedSinceLastFullRaise := {playerIndex},
                                  lastReopenerIndex := playerIndex\<rparr>;
               p2 = p1\<lparr>currentAction := (if status p1 = AllIn then AllInTo (currentBet p1)
                                          else BetTo (currentBet p1))\<rparr>
           in Proceed (setPlayer (next\<lparr>betting := b\<rparr>) playerIndex (syncLegacyFields p2)))
      else if act = RAISE \<or> act = ALL_IN then
        (if \<not> canRaise legal \<and> act \<noteq> ALL_IN then Return next
         else
           let desiredTotal = clampInt amt (highest + 1) (currentBet p + stack p);
               maxTotal = currentBet p + stack p;
               isAllIn = (act = ALL_IN \<or> desiredTotal \<ge> maxTotal);
               total = (if isAllIn then maxTotal else desiredTotal) in
           if total \<le> highest then Return next
           else
             let raiseSize = total - highest;
                 prevFullRaise = lastFullRaiseSize (betting next);
                 meetsMinRaise = (raiseSize \<ge> prevFullRaise) in
             if \<not> isAllIn \<and> \<not> meetsMinRaise then Return next
             else
               let toAdd = total - currentBet p;
                   p1 = fst (commitChips p toAdd);
                   b1 = (betting next)\<lparr>highestBetThisRound := currentBet p1\<rparr>;
                   b2 = (if meetsMinRaise
                         then b1\<lparr>lastFullRaiseSize := raiseSize,
                                 minRaiseAmount := raiseSize,
                                 actedSinceLastFullRaise := {playerIndex},
                                 lastReopenerIndex := playerIndex\<rparr>
                         else b1);
                   p2 = p1\<lparr>currentAction := (if status p1 = AllIn then AllInTo (currentBet p1)
                                              else RaiseTo (currentBet p1))\<rparr>
               in Proceed (setPlayer (next\<lparr>betting := b2\<rparr>) playerIndex (syncLegacyFields p2)))
      else Return next)"

text \<open>The rest of \<^verbatim>\<open>applyAction\<close> after the action was resolved.\<close>

definition finishAction :: "game_state \<Rightarrow> int \<Rightarrow> game_state option" where
  "finishAction next0 playerIndex =
     (let ended = maybeEndHandIfOneLeft next0; next = snd ended in
      if fst ended then
        let pts = computeSidePots (players next);
            total = sum_list (map amount pts);
            next1 = (case (case winners next of [] \<Rightarrow> None | w # _ \<Rightarrow> findById (players next) w) of
                       None \<Rightarrow> next
                     | Some k \<Rightarrow> next\<lparr>players := addToStack total (players next) k\<rparr>)
        in Some (next1\<lparr>pots := pts\<rparr>)
      else
        (case findNextToAct next playerIndex of
           None \<Rightarrow> None
         | Some nextActor \<Rightarrow>
             let next1 = next\<lparr>betting := (betting next)\<lparr>currentActorIndex := nextActor\<rparr>\<rparr> in
             if bettingRoundShouldEnd next1 nextActor then
               (case advanceStreet next1 of
                  None \<Rightarrow> None
                | Some (advanced, next2) \<Rightarrow> if \<not> advanced then resolveHand next2 else Some next2)
             else Some next1))"

text \<open>
  \<^verbatim>\<open>applyAction(state, playerIndex, action, amount)\<close>. The clone of the state is the state
  itself; \<open>None\<close> is a TypeError thrown on the way. The legal actions are computed
  before the seat is marked as having acted.
\<close>

definition applyAction :: "game_state \<Rightarrow> int \<Rightarrow> action \<Rightarrow> int \<Rightarrow> game_state option" where
  "applyAction state playerIndex act amt =
     (if handOver state then Some state
      else
        case at (players state) playerIndex of
          None \<Rightarrow> Some state
        | Some p \<Rightarrow>
            if \<not> canAct p then Some state
            else
              let highest = highestBetThisRound (betting state);
                  callAmt = max 0 (highest - currentBet p);
                  legal = getLegalActions state playerIndex;
                  next = state\<lparr>betting := (betting state)
                           \<lparr>actedSinceLastFullRaise :=
                              insert playerIndex (actedSinceLastFullRaise (betting state)),
                            hasActedThisRound := True\<rparr>\<rparr>
              in case resolveAction next playerIndex p act amt highest callAmt legal of
                   Return s \<Rightarrow> Some s
                 | Proceed s \<Rightarrow> finishAction s playerIndex)"

section \<open>Hands and tables the properties speak about\<close>

text \<open>A five-card hand with the ranks A, 2, 3, 4, 5, in any order and any suits.\<close>

definition isWheel :: "card list \<Rightarrow> bool" where
  "isWheel cs = (length cs = 5 \<and> set (map rank cs) = {RA, R2, R3, R4, R5})"

text \<open>A five-card hand with the ranks 2, 3, 4, 5, 6.\<close>

definition isSixHigh :: "card list \<Rightarrow> bool" where
  "isSixHigh cs = (length cs = 5 \<and> set (map rank cs) = {R2, R3, R4, R5, R6})"

definition sameSuit :: "card list \<Rightarrow> bool" where
  "sameSuit cs = (\<forall>a\<in>set cs. \<forall>b\<in>set cs. suit a = suit b)"

text \<open>The score \<^verbatim>\<open>evaluateHand\<close> returns for fewer than five cards.\<close>

definition waiting :: hand_result where
  "waiting = \<lparr>tier = 0, kickers = [], name = ''Waiting...''\<rparr>"

text \<open>The players of \<^verbatim>\<open>testSidePots\<close>.\<close>

definition testSidePotsPlayers :: "player list" where
  "testSidePotsPlayers =
     (let ps = createPlayers 4 0 in
      [(ps ! 0)\<lparr>totalCommitted := 100, status := AllIn\<rparr>,
       (ps ! 1)\<lparr>totalCommitted := 200, status := AllIn\<rparr>,
       (ps ! 2)\<lparr>totalCommitted := 200, status := Folded\<rparr>,
       (ps ! 3)\<lparr>totalCommitted := 500, status := Active\<rparr>])"

text \<open>Example hands: a wheel of mixed suits, a wheel of hearts, a six-high straight of
  mixed suits, a king-high hand without a pair, and a pair of aces.\<close>

definition wheelMixed :: "card list" where
  "wheelMixed = [\<lparr>rank = R3, suit = D\<rparr>, \<lparr>rank = RA, suit = S\<rparr>, \<lparr>rank = R5, suit = C\<rparr>,
                 \<lparr>rank = R2, suit = H\<rparr>, \<lparr>rank = R4, suit = C\<rparr>]"

definition wheelHearts :: "card list" where
  "wheelHearts = [\<lparr>rank = RA, suit = H\<rparr>, \<lparr>rank = R2, suit = H\<rparr>, \<lparr>rank = R3, suit = H\<rparr>,
                  \<lparr>rank = R4, suit = H\<rparr>, \<lparr>rank = R5, suit = H\<rparr>]"

definition sixHighMixed :: "card list" where
  "sixHighMixed = [\<lparr>rank = R2, suit = S\<rparr>, \<lparr>rank = R3, suit = H\<rparr>, \<lparr>rank = R4, suit = D\<rparr>,
                   \<lparr>rank = R5, suit = C\<rparr>, \<lparr>rank = R6, suit = C\<rparr>]"

definition kingHigh :: "card list" where
  "kingHigh = [\<lparr>rank = RK, suit = S\<rparr>, \<lparr>rank = R9, suit = H\<rparr>, \<lparr>rank = R7, suit = D\<rparr>,
               \<lparr>rank = R4, suit = C\<rparr>, \<lparr>rank = R2, suit = C\<rparr>]"

definition pairOfAces :: "card list" where
  "pairOfAces = [\<lparr>rank = RA, suit = S\<rparr>, \<lparr>rank = RA, suit = H\<rparr>, \<lparr>rank = R7, suit = D\<rparr>,
                 \<lparr>rank = R4, suit = C\<rparr>, \<lparr>rank = R2, suit = C\<rparr>]"


text \<open>A three-handed table right after \<^verbatim>\<open>startHand\<close>: 1000 chips each, blinds 5 and 10,
  dealer at seat 0, the deck in the order of \<^verbatim>\<open>createDeck\<close>.\<close>

definition threeHanded :: game_state where
  "threeHanded = the (startHand (createInitialGameState (createPlayers 3 1000) 5 10 0) createDeck)"

text \<open>The state that \<^verbatim>\<open>testShortAllInDoesNotReopen\<close> constructs from it.\<close>

definition shortAllInGame :: game_state where
  "shortAllInGame =
     (let game = threeHanded;
          ps1 = map (\<lambda>p. p\<lparr>currentBet := 100, stack := 1000\<rparr>) (players game);
          ps2 = ps1[2 := (ps1 ! 2)\<lparr>currentBet := 100, stack := 20\<rparr>]
      in game\<lparr>betting := (betting game)\<lparr>highestBetThisRound := 100,
                                          lastFullRaiseSize := 80,
                                          minRaiseAmount := 80,
                                          actedSinceLastFullRaise := {0, 1},
                                          lastReopenerIndex := 1,
                                          currentActorIndex := 2\<rparr>,
              players := ps2\<rparr>)"

text \<open>The state after seat 2 has gone all-in to 120 in that test.\<close>

definition afterShortAllIn :: game_state where
  "afterShortAllIn = the (applyAction shortAllInGame 2 ALL_IN 120)"

text \<open>The invariant on stacks.\<close>

definition nonNegativeStacks :: "player list \<Rightarrow> bool" where
  "nonNegativeStacks ps = (\<forall>p\<in>set ps. 0 \<le> stack p)"

text \<open>
  Passive play, as in the loop of \<^verbatim>\<open>testBurnAndStreets\<close>: the seat whose turn it is calls
  when its bet is below the highest bet and checks otherwise. Reading the bet of a seat
  that does not exist throws. \<open>playPassive\<close> collects the states until the hand is over,
  for at most the given number of actions.
\<close>

definition passiveStep :: "game_state \<Rightarrow> game_state option" where
  "passiveStep game =
     (let idx = currentActorIndex (betting game);
          highest = highestBetThisRound (betting game) in
      case at (players game) idx of
        None \<Rightarrow> None
      | Some p \<Rightarrow> if currentBet p < highest then applyAction game idx CALL 0
                 else applyAction game idx CHECK 0)"

fun playPassive :: "nat \<Rightarrow> game_state \<Rightarrow> game_state list option" where
  "playPassive 0 game = Some [game]"
| "playPassive (Suc n) game =
     (if handOver game then Some [game]
      else case passiveStep game of
             None \<Rightarrow> None
           | Some game' \<Rightarrow> map_option ((#) game) (playPassive n game'))"

text \<open>
  Invariants of a heads-up hand in which nobody is all-in: two active players with chips
  and two defined hole cards each, and defined community cards.
\<close>

definition headsUpReady :: "game_state \<Rightarrow> bool" where
  "headsUpReady s =
     (length (players s) = 2
      \<and> (\<forall>p\<in>set (players s). status p = Active \<and> 0 < stack p
            \<and> length (holeCards p) = 2 \<and> None \<notin> set (holeCards p))
      \<and> (dealerIndex s = 0 \<or> dealerIndex s = 1)
      \<and> \<not> handOver s
      \<and> None \<notin> set (communityCards s))"

text \<open>The number of community cards of a street, and the cards the deck must still hold.\<close>

fun cardsFor :: "phase \<Rightarrow> nat \<times> nat" where
  "cardsFor Flop = (3, 4)"
| "cardsFor Turn = (4, 2)"
| "cardsFor River = (5, 0)"
| "cardsFor ph = (0, 8)"

text \<open>The first seat to act before the flop, facing the larger blind with enough chips
  to call it.\<close>

definition preflopOpen :: "game_state \<Rightarrow> bool" where
  "preflopOpen s =
     (headsUpReady s \<and> phase s = Preflop \<and> communityCards s = [] \<and> 8 \<le> length (deck s)
      \<and> 0 < highestBetThisRound (betting s)
      \<and> currentBet (players s ! nat (dealerIndex s)) = highestBetThisRound (betting s)
      \<and> currentBet (players s ! nat (1 - dealerIndex s)) \<le> highestBetThisRound (betting s)
      \<and> highestBetThisRound (betting s) - currentBet (players s ! nat (1 - dealerIndex s))
           < stack (players s ! nat (1 - dealerIndex s))
      \<and> lastReopenerIndex (betting s) = dealerIndex s
      \<and> currentActorIndex (betting s) = 1 - dealerIndex s
      \<and> \<not> hasActedThisRound (betting s))"

text \<open>A street after the flop with no bet: before the first check (\<open>acted = False\<close>) and
  after it.\<close>

definition streetOpen :: "phase \<Rightarrow> bool \<Rightarrow> game_state \<Rightarrow> bool" where
  "streetOpen ph acted s =
     (headsUpReady s \<and> phase s = ph
      \<and> length (communityCards s) = fst (cardsFor ph)
      \<and> snd (cardsFor ph) \<le> length (deck s)
      \<and> highestBetThisRound (betting s) = 0
      \<and> (\<forall>p\<in>set (players s). currentBet p = 0)
      \<and> hasActedThisRound (betting s) = acted
      \<and> startingIndex (betting s) = 1 - dealerIndex s
      \<and> currentActorIndex (betting s) = (if acted then dealerIndex s else 1 - dealerIndex s))"

text \<open>A heads-up table whose stacks equal the big blind: 10 chips each, blinds 5 and 10,
  dealer at seat 0, right after \<^verbatim>\<open>startHand\<close>.\<close>

definition headsUpShort :: game_state where
  "headsUpShort = the (startHand (createInitialGameState (createPlayers 2 10) 5 10 0) createDeck)"


text \<open>The state in which passive play leaves that table after its one action.\<close>

definition stalledHeadsUp :: game_state where
  "stalledHeadsUp = the (passiveStep headsUpShort)"

text \<open>
  A three-handed table with stacks of 100, 100 and 120 chips, blinds 10 and 20 and the
  dealer at seat 0; the hand that \<^verbatim>\<open>startHand\<close> deals on it from the deck in the order of
  \<^verbatim>\<open>createDeck\<close>; the state after seat 0 has opened all-in to 100; and the state after
  seat 1 has called that with its last chips, in which seat 2 faces 100 with 120 in all.
\<close>

definition unevenTable :: game_state where
  "unevenTable =
     (let ps = createPlayers 3 100
      in createInitialGameState (ps[2 := (ps ! 2)\<lparr>stack := 120\<rparr>]) 10 20 0)"

definition unevenHand :: game_state where
  "unevenHand = the (startHand unevenTable createDeck)"

definition afterOpenAllIn :: game_state where
  "afterOpenAllIn = the (applyAction unevenHand 0 ALL_IN 0)"

definition facingAllIn :: game_state where
  "facingAllIn = the (applyAction afterOpenAllIn 1 CALL 0)"
section \<open>Auxiliary facts\<close>

subsection \<open>Sorting and the evaluator\<close>

lemma insertBy_desc: "insertBy (\<lambda>a b. f b - f a) x ys = insort_key (\<lambda>c. - f c) x ys" for f :: "'a \<Rightarrow> int"
  by (induction ys) auto

lemma jsSort_desc: "jsSort (\<lambda>a b. f b - f a) xs = sort_key (\<lambda>c. - f c) xs" for f :: "'a \<Rightarrow> int"
  by (induction xs) (auto simp: jsSort_def insertBy_desc)

lemma insertBy_asc: "insertBy (\<lambda>a b. a - b) x ys = insort x ys" for x :: int
  by (induction ys) auto

lemma jsSort_asc: "jsSort (\<lambda>a b. a - b) xs = sort xs" for xs :: "int list"
  by (induction xs) (auto simp: jsSort_def insertBy_asc)

lemma inj_getRankValue: "inj getRankValue"
  by (rule injI) (case_tac x; case_tac y; simp)

lemma sorted_ranks_unique:
  fixes cards :: "card list"
  assumes d: "distinct (map rank cards)" and s: "set (map rank cards) = set rs" and drs: "distinct rs"
    and srt: "sorted (map (\<lambda>r. - getRankValue r) rs)"
  shows "map (\<lambda>c. getRankValue (rank c)) (jsSort (\<lambda>a b. getRankValue (rank b) - getRankValue (rank a)) cards)
         = map getRankValue rs"
proof -
  let ?g = "\<lambda>c. - getRankValue (rank c)"
  let ?h = "\<lambda>r. - getRankValue r"
  let ?srt = "sort_key ?g cards"
  have injh: "inj ?h" using inj_getRankValue by (auto simp: inj_def)
  have dm: "distinct (map rank ?srt)"
    using d by (simp add: distinct_map)
  have "map ?g ?srt = map ?h (map rank ?srt)" by simp
  have 1: "sorted (map ?h (map rank ?srt))"
    using sorted_sort_key [of ?g cards] by (simp add: comp_def)
  have 2: "distinct (map ?h (map rank ?srt))"
    using dm injh by (metis distinct_map inj_on_subset subset_UNIV)
  have 3: "distinct (map ?h rs)"
    using drs injh by (metis distinct_map inj_on_subset subset_UNIV)
  have 4: "set (map ?h (map rank ?srt)) = set (map ?h rs)"
    using s by (simp add: image_image) (metis image_image)
  have "map ?h (map rank ?srt) = map ?h rs"
    by (rule sorted_distinct_set_unique [OF 1 2 srt 3 4])
  then have "map rank ?srt = rs"
    by (simp only: inj_map_eq_map [OF injh])
  then have "map getRankValue (map rank ?srt) = map getRankValue rs" by simp
  then show ?thesis
    by (simp add: jsSort_desc comp_def)
qed

lemma wheel_ranks:
  assumes "isWheel cs"
  shows "map (\<lambda>c. getRankValue (rank c)) (jsSort (\<lambda>a b. getRankValue (rank b) - getRankValue (rank a)) cs)
         = [14, 5, 4, 3, 2]"
proof -
  have c: "card (set (map rank cs)) = length (map rank cs)"
    using assms by (simp add: isWheel_def)
  have d: "distinct (map rank cs)" by (rule card_distinct [OF c])
  have "set (map rank cs) = set [RA, R5, R4, R3, R2]" using assms by (auto simp: isWheel_def)
  from sorted_ranks_unique [OF d this] show ?thesis by simp
qed

lemma sixhigh_ranks:
  assumes "isSixHigh cs"
  shows "map (\<lambda>c. getRankValue (rank c)) (jsSort (\<lambda>a b. getRankValue (rank b) - getRankValue (rank a)) cs)
         = [6, 5, 4, 3, 2]"
proof -
  have c: "card (set (map rank cs)) = length (map rank cs)"
    using assms by (simp add: isSixHigh_def)
  have d: "distinct (map rank cs)" by (rule card_distinct [OF c])
  have "set (map rank cs) = set [R6, R5, R4, R3, R2]" using assms by (auto simp: isSixHigh_def)
  from sorted_ranks_unique [OF d this] show ?thesis by simp
qed

lemma flush_sameSuit:
  "list_all (\<lambda>s. s = hd (map suit (jsSort (\<lambda>a b. getRankValue (rank b) - getRankValue (rank a)) cs)))
      (map suit (jsSort (\<lambda>a b. getRankValue (rank b) - getRankValue (rank a)) cs)) = sameSuit cs"
proof -
  let ?xs = "jsSort (\<lambda>a b. getRankValue (rank b) - getRankValue (rank a)) cs"
  have s: "set ?xs = set cs" by (simp add: jsSort_desc)
  have "list_all (\<lambda>s. s = hd (map suit ?xs)) (map suit ?xs) = (\<forall>a\<in>set ?xs. \<forall>b\<in>set ?xs. suit a = suit b)"
    by (cases ?xs) (auto simp: list_all_iff)
  then show ?thesis by (simp add: s sameSuit_def)
qed

lemma upt_0_4: "[0..<4] = [0, 1, 2, 3]"
  by (simp add: upt_rec)

lemma wheel_eval:
  assumes "isWheel cs"
  shows "evaluate5Defined cs =
     (if sameSuit cs then \<lparr>tier = 8, kickers = [5, 4, 3, 2, 1], name = ''Straight Flush''\<rparr>
      else \<lparr>tier = 4, kickers = [5, 4, 3, 2, 1], name = ''Straight''\<rparr>)"
  unfolding evaluate5Defined_def Let_def wheel_ranks [OF assms] flush_sameSuit
  by (simp add: jsSort_def upt_0_4)

lemma sixhigh_eval:
  assumes "isSixHigh cs"
  shows "evaluate5Defined cs =
     (if sameSuit cs then \<lparr>tier = 8, kickers = [6, 5, 4, 3, 2], name = ''Straight Flush''\<rparr>
      else \<lparr>tier = 4, kickers = [6, 5, 4, 3, 2], name = ''Straight''\<rparr>)"
  unfolding evaluate5Defined_def Let_def sixhigh_ranks [OF assms] flush_sameSuit
  by (simp add: jsSort_def upt_0_4)

lemma those_map_Some: "those (map Some xs) = Some xs"
  by (induction xs) auto

lemma tier_nonneg: "0 \<le> tier (evaluate5Defined cs)"
  by (simp add: evaluate5Defined_def Let_def)

lemma compareKickers_Nil: "compareKickers ks [] = 0"
  by (induction ks) auto

lemma evaluate5CardHand_Some: "evaluate5CardHand (map Some cs) = Some (evaluate5Defined cs)"
  by (simp add: evaluate5CardHand_def those_map_Some)

lemma eval_kingHigh:
  "evaluate5Defined kingHigh = \<lparr>tier = 0, kickers = [13, 9, 7, 4, 2], name = ''High Card''\<rparr>"
  by (simp add: evaluate5Defined_def kingHigh_def jsSort_def Let_def upt_0_4)

lemma eval_pairOfAces:
  "evaluate5Defined pairOfAces = \<lparr>tier = 1, kickers = [14, 7, 4, 2], name = ''Pair''\<rparr>"
  by (simp add: evaluate5Defined_def pairOfAces_def jsSort_def Let_def upt_0_4)

lemma isWheel_examples: "isWheel wheelMixed" "isWheel wheelHearts" "\<not> sameSuit wheelMixed" "sameSuit wheelHearts"
  by (auto simp: isWheel_def wheelMixed_def wheelHearts_def sameSuit_def)

lemma isSixHigh_example: "isSixHigh sixHighMixed" "\<not> sameSuit sixHighMixed"
  by (auto simp: isSixHigh_def sixHighMixed_def sameSuit_def)


subsection \<open>Side pots\<close>

lemma levelsOf_props:
  "sorted (levelsOf cs)" "distinct (levelsOf cs)" "set (levelsOf cs) = committed ` set cs"
  by (simp_all add: levelsOf_def jsSort_asc setToArray_def)

lemma slice_sum:
  assumes "\<forall>c\<in>set cs. prev < committed c \<longrightarrow> L \<le> committed c" and "prev < L"
  shows "(L - prev) * int (length (filter (\<lambda>c. L \<le> committed c) cs))
           + (\<Sum>c\<leftarrow>cs. max 0 (committed c - L))
         = (\<Sum>c\<leftarrow>cs. max 0 (committed c - prev))"
  using assms
proof (induction cs)
  case Nil
  then show ?case by simp
next
  case (Cons c cs)
  then have ih: "(L - prev) * int (length (filter (\<lambda>c. L \<le> committed c) cs))
           + (\<Sum>c\<leftarrow>cs. max 0 (committed c - L))
         = (\<Sum>c\<leftarrow>cs. max 0 (committed c - prev))" by simp
  from Cons.prems have c: "prev < committed c \<longrightarrow> L \<le> committed c" by simp
  show ?case
  proof (cases "L \<le> committed c")
    case True
    with \<open>prev < L\<close> ih show ?thesis by (simp add: algebra_simps)
  next
    case False
    with c \<open>prev < L\<close> ih show ?thesis by simp
  qed
qed

lemma potsLoop_sum:
  assumes "sorted levels" "distinct levels" "\<forall>l\<in>set levels. prev < l"
    "\<forall>c\<in>set cs. prev < committed c \<longrightarrow> committed c \<in> set levels"
  shows "sum_list (map amount (potsLoop cs prev levels)) = (\<Sum>c\<leftarrow>cs. max 0 (committed c - prev))"
  using assms
proof (induction levels arbitrary: prev)
  case Nil
  then have "\<forall>c\<in>set cs. max 0 (committed c - prev) = 0" by auto
  then have "(\<Sum>c\<leftarrow>cs. max 0 (committed c - prev)) = 0"
    by (induction cs) auto
  then show ?case by simp
next
  case (Cons L rest)
  have lt: "prev < L" using Cons.prems by simp
  have r1: "sorted rest" "distinct rest" using Cons.prems by simp_all
  have r2: "\<forall>l\<in>set rest. L < l" using Cons.prems by (auto simp: less_le)
  have r3: "\<forall>c\<in>set cs. L < committed c \<longrightarrow> committed c \<in> set rest"
    using Cons.prems lt by fastforce
  have ge: "\<forall>c\<in>set cs. prev < committed c \<longrightarrow> L \<le> committed c"
    using Cons.prems by fastforce
  have ih: "sum_list (map amount (potsLoop cs L rest)) = (\<Sum>c\<leftarrow>cs. max 0 (committed c - L))"
    by (rule Cons.IH [OF r1 r2 r3])
  show ?case
    using slice_sum [OF ge lt] ih by (simp add: Let_def)
qed

lemma potsLoop_positive:
  assumes "sorted levels" "distinct levels" "\<forall>l\<in>set levels. prev < l"
    "\<forall>l\<in>set levels. \<exists>c\<in>set cs. committed c = l"
  shows "\<forall>pt\<in>set (potsLoop cs prev levels). 0 < amount pt"
  using assms
proof (induction levels arbitrary: prev)
  case Nil
  then show ?case by simp
next
  case (Cons L rest)
  have lt: "prev < L" using Cons.prems by simp
  have r2: "\<forall>l\<in>set rest. L < l" using Cons.prems by (auto simp: less_le)
  obtain c where c: "c \<in> set cs" "committed c = L" using Cons.prems(4) by auto
  then have "filter (\<lambda>c. L \<le> committed c) cs \<noteq> []"
    by (auto simp: filter_empty_conv)
  then have "0 < int (length (filter (\<lambda>c. L \<le> committed c) cs))" by simp
  with lt have pos: "0 < (L - prev) * int (length (filter (\<lambda>c. L \<le> committed c) cs))"
    by (simp add: zero_less_mult_iff del: of_nat_0_less_iff length_greater_0_conv)
  have "\<forall>pt\<in>set (potsLoop cs L rest). 0 < amount pt"
    using Cons.IH [of L] Cons.prems r2 by simp
  with pos show ?case by (simp add: Let_def)
qed

lemma potsLoop_length: "length (potsLoop cs prev levels) = length levels"
  by (induction levels arbitrary: prev) (simp_all add: Let_def)

lemma potsLoop_nth:
  "k < length levels \<Longrightarrow>
   eligiblePlayers (potsLoop cs prev levels ! k)
     = map cid (filter (\<lambda>c. \<not> cfolded c) (filter (\<lambda>c. levels ! k \<le> committed c) cs))"
proof (induction levels arbitrary: prev k)
  case Nil
  then show ?case by simp
next
  case (Cons L rest)
  then show ?case by (cases k) (simp_all add: Let_def)
qed

lemma contributors_committed_pos: "\<forall>c\<in>set (contributorsOf ps). 0 < committed c"
  by (auto simp: contributorsOf_def)

lemma contributors_sum:
  assumes "\<forall>p\<in>set ps. 0 \<le> totalCommitted p"
  shows "(\<Sum>c\<leftarrow>contributorsOf ps. max 0 (committed c - 0)) = sum_list (map totalCommitted ps)"
  using assms by (induction ps) (auto simp: contributorsOf_def)

lemma computeSidePots_unfiltered:
  "computeSidePots ps = potsLoop (contributorsOf ps) 0 (levelsOf (contributorsOf ps))"
proof (cases "contributorsOf ps = []")
  case True
  then show ?thesis by (simp add: computeSidePots_def levelsOf_def setToArray_def jsSort_def)
next
  case False
  let ?cs = "contributorsOf ps"
  have "\<forall>l\<in>set (levelsOf ?cs). (0::int) < l"
    using contributors_committed_pos by (auto simp: levelsOf_props)
  moreover have "\<forall>l\<in>set (levelsOf ?cs). \<exists>c\<in>set ?cs. committed c = l"
    by (auto simp: levelsOf_props)
  ultimately have "\<forall>pt\<in>set (potsLoop ?cs 0 (levelsOf ?cs)). 0 < amount pt"
    by (intro potsLoop_positive levelsOf_props)
  then have "filter (\<lambda>p. amount p > 0) (potsLoop ?cs 0 (levelsOf ?cs)) = potsLoop ?cs 0 (levelsOf ?cs)"
    by (simp add: filter_id_conv)
  with False show ?thesis by (simp add: computeSidePots_def Let_def)
qed


subsection \<open>Finding the next seat to act\<close>

lemma upt_0_3: "[0..<3] = [0, 1, 2]" by (simp add: upt_rec)

lemma upt_1_4: "[1..<4] = [1, 2, 3]" by (simp add: upt_rec)

lemma at_Some_iff: "at xs i = Some x \<longleftrightarrow> 0 \<le> i \<and> i < int (length xs) \<and> x = xs ! nat i"
  by (auto simp: at_def)

lemma nextIndexClockwise_range:
  assumes "0 \<le> idx" "ps \<noteq> []"
  shows "nextIndexClockwise ps idx = (idx + 1) mod int (length ps)"
    and "0 \<le> nextIndexClockwise ps idx" and "nextIndexClockwise ps idx < int (length ps)"
  using assms by (simp_all add: nextIndexClockwise_def jsRem_def)

lemma findLoop_result:
  assumes "0 \<le> idx" "idx < int (length ps)"
  shows "\<exists>r. findLoop ps idx k = Some r
             \<and> (r = -1 \<or> (0 \<le> r \<and> r < int (length ps) \<and> canAct (ps ! nat r)))"
  using assms
proof (induction k arbitrary: idx)
  case 0
  then show ?case by simp
next
  case (Suc k)
  then have ne: "ps \<noteq> []" by (cases ps) auto
  have a: "at ps idx = Some (ps ! nat idx)" using Suc.prems by (simp add: at_def)
  show ?case
  proof (cases "canAct (ps ! nat idx)")
    case True
    with a Suc.prems show ?thesis by simp
  next
    case False
    with a Suc.IH [OF nextIndexClockwise_range(2,3) [OF Suc.prems(1) ne]]
    show ?thesis by simp
  qed
qed

lemma findLoop_nobody:
  assumes "0 \<le> idx" "idx < int (length ps)" "findLoop ps idx k = Some (-1)"
  shows "\<forall>m<k. \<not> canAct (ps ! nat ((idx + int m) mod int (length ps)))"
  using assms
proof (induction k arbitrary: idx)
  case 0
  then show ?case by simp
next
  case (Suc k)
  then have ne: "ps \<noteq> []" by (cases ps) auto
  have a: "at ps idx = Some (ps ! nat idx)" using Suc.prems by (simp add: at_def)
  have no: "\<not> canAct (ps ! nat idx)"
    using Suc.prems a by (auto split: if_splits)
  then have rec: "findLoop ps (nextIndexClockwise ps idx) k = Some (-1)"
    using Suc.prems a by simp
  have ih: "\<forall>m<k. \<not> canAct (ps ! nat ((nextIndexClockwise ps idx + int m) mod int (length ps)))"
    by (rule Suc.IH [OF nextIndexClockwise_range(2,3) [OF Suc.prems(1) ne] rec])
  show ?case
  proof (intro allI impI)
    fix m assume m: "m < Suc k"
    show "\<not> canAct (ps ! nat ((idx + int m) mod int (length ps)))"
    proof (cases m)
      case 0
      with no Suc.prems show ?thesis by simp
    next
      case (Suc m')
      with m have "m' < k" by simp
      with ih have "\<not> canAct (ps ! nat ((nextIndexClockwise ps idx + int m') mod int (length ps)))" by simp
      moreover have "(nextIndexClockwise ps idx + int m') mod int (length ps) = (idx + int m) mod int (length ps)"
      proof -
        have "(nextIndexClockwise ps idx + int m') mod int (length ps)
                = ((idx + 1) mod int (length ps) + int m') mod int (length ps)"
          by (simp only: nextIndexClockwise_range(1) [OF Suc.prems(1) ne])
        also have "\<dots> = (idx + 1 + int m') mod int (length ps)"
          by (rule mod_add_left_eq)
        finally show ?thesis using Suc by (simp add: algebra_simps)
      qed
      ultimately show ?thesis by simp
    qed
  qed
qed

lemma findNextToAct_finds:
  assumes fr: "0 \<le> frm" "frm < int (length (players s))"
    and j: "0 \<le> j" "j < int (length (players s))" "canAct (players s ! nat j)"
  shows "\<exists>r. findNextToAct s frm = Some r \<and> r \<noteq> -1"
proof -
  let ?ps = "players s"
  let ?n = "int (length ?ps)"
  have ne: "?ps \<noteq> []" using fr by (cases "players s") auto
  let ?i0 = "nextIndexClockwise ?ps frm"
  have i0: "0 \<le> ?i0" "?i0 < ?n" using nextIndexClockwise_range [OF fr(1) ne] by simp_all
  obtain r where r: "findLoop ?ps ?i0 (length ?ps) = Some r"
    using findLoop_result [OF i0] by blast
  have "r \<noteq> -1"
  proof
    assume "r = -1"
    with r have no: "\<forall>m<length ?ps. \<not> canAct (?ps ! nat ((?i0 + int m) mod ?n))"
      using findLoop_nobody [OF i0] by simp
    let ?m = "nat ((j - ?i0) mod ?n)"
    have npos: "0 < ?n" using fr by linarith
    have "?m < length ?ps" using npos by (simp add: nat_less_iff)
    moreover have "(?i0 + int ?m) mod ?n = j"
      using npos j by (simp add: mod_add_right_eq)
    ultimately show False using no j by auto
  qed
  with r ne show ?thesis by (simp add: findNextToAct_def)
qed

subsection \<open>The end of an action\<close>

lemma maybeEnd_betting: "betting (snd (maybeEndHandIfOneLeft s)) = betting s"
  by (simp add: maybeEndHandIfOneLeft_def Let_def)

lemma maybeEnd_players: "players (snd (maybeEndHandIfOneLeft s)) = players s"
  by (simp add: maybeEndHandIfOneLeft_def Let_def)

lemma maybeEnd_False: "\<not> fst (maybeEndHandIfOneLeft s) \<Longrightarrow> snd (maybeEndHandIfOneLeft s) = s"
  by (simp add: maybeEndHandIfOneLeft_def Let_def split: if_splits)

lemma finishAction_unsettled:
  assumes i: "0 \<le> i" "i < int (length (players s))"
    and a: "at (players s) a = Some q" "canAct q" "currentBet q \<noteq> highestBetThisRound (betting s)"
  shows "\<exists>s'. finishAction s i = Some s'
            \<and> highestBetThisRound (betting s') = highestBetThisRound (betting s)
            \<and> actedSinceLastFullRaise (betting s') = actedSinceLastFullRaise (betting s)
            \<and> lastFullRaiseSize (betting s') = lastFullRaiseSize (betting s)
            \<and> minRaiseAmount (betting s') = minRaiseAmount (betting s)"
proof (cases "fst (maybeEndHandIfOneLeft s)")
  case True
  then show ?thesis
    by (auto simp: finishAction_def Let_def maybeEnd_betting split: option.splits list.splits)
next
  case False
  then have same: "snd (maybeEndHandIfOneLeft s) = s" by (rule maybeEnd_False)
  have aa: "0 \<le> a" "a < int (length (players s))" "q = players s ! nat a"
    using a(1) by (simp_all add: at_Some_iff)
  obtain r where r: "findNextToAct s i = Some r" "r \<noteq> -1"
    using findNextToAct_finds [OF i aa(1,2)] a(2) aa(3) by auto
  have qin: "q \<in> set (players s)" using aa by simp
  have "\<not> allPlayersSettledToHighest (s\<lparr>betting := (betting s)\<lparr>currentActorIndex := r\<rparr>\<rparr>)"
    using qin a(2,3) by (force simp: allPlayersSettledToHighest_def list_all_iff canAct_def isFolded_def isInHand_def)
  then have "\<not> bettingRoundShouldEnd (s\<lparr>betting := (betting s)\<lparr>currentActorIndex := r\<rparr>\<rparr>) r"
    using r(2) by (simp add: bettingRoundShouldEnd_def)
  then show ?thesis
    using False same r(1) by (simp add: finishAction_def Let_def)
qed

lemma commitChips_currentBet:
  "0 < stack p \<Longrightarrow> currentBet (fst (commitChips p (stack p))) = currentBet p + stack p"
  by (simp add: commitChips_def Let_def syncLegacyFields_def)

subsection \<open>The example tables\<close>

lemmas start_defs = startHand_def createInitialGameState_def createPlayers_def createDeck_def
  SUITS_def RANKS_def dealOne_def popCard_def resetForHand_def syncLegacyFields_def postBlind_def
  commitChips_def findNextToAct_def nextIndexClockwise_def jsRem_def at_def canAct_def Let_def

lemma threeHanded_eq:
  "threeHanded =
    \<lparr>deck = deck threeHanded, communityCards = [], phase = Preflop, dealerIndex = 0, sbAmount = 5,
     bbAmount = 10,
     players =
       [\<lparr>pid = 0, pname = You, stack = 1000,
           holeCards = [Some \<lparr>rank = RQ, suit = D\<rparr>, Some \<lparr>rank = R9, suit = D\<rparr>],
           currentBet = 0, totalCommitted = 0, status = Active, handStrength = None,
           hand = [Some \<lparr>rank = RQ, suit = D\<rparr>, Some \<lparr>rank = R9, suit = D\<rparr>],
           chips = 1000, bet = 0, totalInvested = 0, folded = False,
           currentAction = NoLabel, showCards = False\<rparr>,
        \<lparr>pid = 1, pname = Bot 1, stack = 995,
           holeCards = [Some \<lparr>rank = RA, suit = D\<rparr>, Some \<lparr>rank = RJ, suit = D\<rparr>],
           currentBet = 5, totalCommitted = 5, status = Active, handStrength = None,
           hand = [Some \<lparr>rank = RA, suit = D\<rparr>, Some \<lparr>rank = RJ, suit = D\<rparr>],
           chips = 995, bet = 5, totalInvested = 5, folded = False,
           currentAction = SmallBlindLabel, showCards = False\<rparr>,
        \<lparr>pid = 2, pname = Bot 2, stack = 990,
           holeCards = [Some \<lparr>rank = RK, suit = D\<rparr>, Some \<lparr>rank = RT, suit = D\<rparr>],
           currentBet = 10, totalCommitted = 10, status = Active, handStrength = None,
           hand = [Some \<lparr>rank = RK, suit = D\<rparr>, Some \<lparr>rank = RT, suit = D\<rparr>],
           chips = 990, bet = 10, totalInvested = 10, folded = False,
           currentAction = BigBlindLabel, showCards = False\<rparr>],
     betting =
       \<lparr>highestBetThisRound = 10, minRaiseAmount = 10, lastFullRaiseSize = 10,
          actedSinceLastFullRaise = {}, lastReopenerIndex = 2, startingIndex = 0,
          currentActorIndex = 0, hasActedThisRound = False\<rparr>,
     pots = [], winners = [], handOver = False, message = NoMessage, oddChipStartIndex = 0\<rparr>"
  by (simp add: threeHanded_def start_defs upt_0_3 upt_1_4)

lemma threeHanded_fields:
  "players threeHanded =
       [\<lparr>pid = 0, pname = You, stack = 1000,
           holeCards = [Some \<lparr>rank = RQ, suit = D\<rparr>, Some \<lparr>rank = R9, suit = D\<rparr>],
           currentBet = 0, totalCommitted = 0, status = Active, handStrength = None,
           hand = [Some \<lparr>rank = RQ, suit = D\<rparr>, Some \<lparr>rank = R9, suit = D\<rparr>],
           chips = 1000, bet = 0, totalInvested = 0, folded = False,
           currentAction = NoLabel, showCards = False\<rparr>,
        \<lparr>pid = 1, pname = Bot 1, stack = 995,
           holeCards = [Some \<lparr>rank = RA, suit = D\<rparr>, Some \<lparr>rank = RJ, suit = D\<rparr>],
           currentBet = 5, totalCommitted = 5, status = Active, handStrength = None,
           hand = [Some \<lparr>rank = RA, suit = D\<rparr>, Some \<lparr>rank = RJ, suit = D\<rparr>],
           chips = 995, bet = 5, totalInvested = 5, folded = False,
           currentAction = SmallBlindLabel, showCards = False\<rparr>,
        \<lparr>pid = 2, pname = Bot 2, stack = 990,
           holeCards = [Some \<lparr>rank = RK, suit = D\<rparr>, Some \<lparr>rank = RT, suit = D\<rparr>],
           currentBet = 10, totalCommitted = 10, status = Active, handStrength = None,
           hand = [Some \<lparr>rank = RK, suit = D\<rparr>, Some \<lparr>rank = RT, suit = D\<rparr>],
           chips = 990, bet = 10, totalInvested = 10, folded = False,
           currentAction = BigBlindLabel, showCards = False\<rparr>]"
  "betting threeHanded =
       \<lparr>highestBetThisRound = 10, minRaiseAmount = 10, lastFullRaiseSize = 10,
          actedSinceLastFullRaise = {}, lastReopenerIndex = 2, startingIndex = 0,
          currentActorIndex = 0, hasActedThisRound = False\<rparr>"
  "handOver threeHanded = False" "bbAmount threeHanded = 10" "phase threeHanded = Preflop"
  "dealerIndex threeHanded = 0"
  by (subst threeHanded_eq, simp)+

lemmas action_defs = applyAction_def resolveAction_def finishAction_def getLegalActions_def
  maybeEndHandIfOneLeft_def bettingRoundShouldEnd_def allPlayersSettledToHighest_def
  setPlayer_def commitChips_def syncLegacyFields_def clampInt_def isInHand_def isFolded_def
  canAct_def at_def findNextToAct_def nextIndexClockwise_def jsRem_def Let_def

lemma shortAllInGame_fields:
  "handOver shortAllInGame = False"
  "betting shortAllInGame =
      \<lparr>highestBetThisRound = 100, minRaiseAmount = 80, lastFullRaiseSize = 80,
         actedSinceLastFullRaise = {0, 1}, lastReopenerIndex = 1, startingIndex = 0,
         currentActorIndex = 2, hasActedThisRound = False\<rparr>"
  "map (\<lambda>p. (status p, stack p, currentBet p)) (players shortAllInGame)
     = [(Active, 1000, 100), (Active, 1000, 100), (Active, 20, 100)]"
  by (simp_all add: shortAllInGame_def threeHanded_fields Let_def)

lemma the_map_option: "map_option f x = Some y \<Longrightarrow> f (the x) = y"
  by (cases x) auto

lemma applyAction_shortAllIn:
  "map_option handOver (applyAction shortAllInGame 2 ALL_IN 120) = Some False"
  "map_option betting (applyAction shortAllInGame 2 ALL_IN 120) =
     Some \<lparr>highestBetThisRound = 120, minRaiseAmount = 80, lastFullRaiseSize = 80,
         actedSinceLastFullRaise = {0, 1, 2}, lastReopenerIndex = 1, startingIndex = 0,
         currentActorIndex = 0, hasActedThisRound = True\<rparr>"
  "map_option (\<lambda>s. map (\<lambda>p. (status p, stack p, currentBet p)) (players s))
      (applyAction shortAllInGame 2 ALL_IN 120)
     = Some [(Active, 1000, 100), (Active, 1000, 100), (AllIn, 0, 120)]"
  by (simp_all add: action_defs shortAllInGame_def threeHanded_fields insert_commute)

lemma afterShortAllIn_fields:
  "handOver afterShortAllIn = False"
  "betting afterShortAllIn =
      \<lparr>highestBetThisRound = 120, minRaiseAmount = 80, lastFullRaiseSize = 80,
         actedSinceLastFullRaise = {0, 1, 2}, lastReopenerIndex = 1, startingIndex = 0,
         currentActorIndex = 0, hasActedThisRound = True\<rparr>"
  "map (\<lambda>p. (status p, stack p, currentBet p)) (players afterShortAllIn)
     = [(Active, 1000, 100), (Active, 1000, 100), (AllIn, 0, 120)]"
  unfolding afterShortAllIn_def
  by (rule the_map_option [OF applyAction_shortAllIn(1)],
      rule the_map_option [OF applyAction_shortAllIn(2)],
      rule the_map_option [OF applyAction_shortAllIn(3)])

subsection \<open>Stacks stay non-negative\<close>

lemma stack_sync [simp]: "stack (syncLegacyFields p) = stack p"
  by (simp add: syncLegacyFields_def)

lemma commitChips_stack: "0 \<le> stack p \<Longrightarrow> 0 \<le> stack (fst (commitChips p a))"
  by (simp add: commitChips_def Let_def)

lemma commitChips_all_in: "stack (fst (commitChips p a)) = 0 \<Longrightarrow> status (fst (commitChips p a)) \<noteq> Active"
  by (auto simp: commitChips_def Let_def syncLegacyFields_def split: if_splits)

lemma nonNeg_update: "nonNegativeStacks ps \<Longrightarrow> 0 \<le> stack x \<Longrightarrow> nonNegativeStacks (ps[k := x])"
  using set_update_subset_insert [of ps k x] by (auto simp: nonNegativeStacks_def)

lemma nonNeg_nth: "nonNegativeStacks ps \<Longrightarrow> k < length ps \<Longrightarrow> 0 \<le> stack (ps ! k)"
  by (simp add: nonNegativeStacks_def)

lemma nonNeg_map: "nonNegativeStacks ps \<Longrightarrow> (\<And>p. stack (f p) = stack p) \<Longrightarrow> nonNegativeStacks (map f ps)"
  by (auto simp: nonNegativeStacks_def)

lemma nonNeg_addToStack:
  assumes "nonNegativeStacks ps" "0 \<le> n"
  shows "nonNegativeStacks (addToStack n ps w)"
proof (cases "w < length ps")
  case True
  with assms show ?thesis
    unfolding addToStack_def by (intro nonNeg_update) (auto dest: nonNeg_nth)
next
  case False
  with assms show ?thesis by (simp add: addToStack_def list_update_beyond)
qed

lemma nonNeg_foldl_addToStack:
  "nonNegativeStacks ps \<Longrightarrow> 0 \<le> n \<Longrightarrow> nonNegativeStacks (foldl (addToStack n) ps ws)"
  by (induction ws arbitrary: ps) (simp_all add: nonNeg_addToStack)

lemma nonNeg_label:
  "nonNegativeStacks ps \<Longrightarrow> nonNegativeStacks (ps[w := (ps ! w)\<lparr>currentAction := l\<rparr>])"
proof (cases "w < length ps")
  case True
  assume "nonNegativeStacks ps"
  with True show ?thesis by (intro nonNeg_update) (auto dest: nonNeg_nth)
next
  case False
  assume "nonNegativeStacks ps"
  with False show ?thesis by (simp add: list_update_beyond)
qed

lemma nonNeg_foldl_label:
  "nonNegativeStacks ps \<Longrightarrow>
   nonNegativeStacks (foldl (\<lambda>qs w. qs[w := (qs ! w)\<lparr>currentAction := l\<rparr>]) ps ws)"
  by (induction ws arbitrary: ps) (simp_all add: nonNeg_label)

lemma nonNeg_oddChips:
  "nonNegativeStacks ps \<Longrightarrow> oddChips ps ws idx r k = Some ps' \<Longrightarrow> nonNegativeStacks ps'"
proof (induction k arbitrary: ps idx r)
  case 0
  then show ?case by simp
next
  case (Suc k)
  show ?case
  proof (cases "r > 0")
    case False
    with Suc.prems show ?thesis by simp
  next
    case True
    then obtain seatPlayer where sp: "at ps idx = Some seatPlayer"
      using Suc.prems(2) by (cases "at ps idx") auto
    show ?thesis
    proof (cases "list_ex (\<lambda>w. pid (ps ! w) = pid seatPlayer) ws")
      case yes: True
      have "nonNegativeStacks (addToStack 1 ps (nat idx))"
        using Suc.prems(1) by (simp add: nonNeg_addToStack)
      moreover have "oddChips (addToStack 1 ps (nat idx)) ws (nextIndexClockwise ps idx) (r - 1) k = Some ps'"
        using Suc.prems(2) True sp yes by simp
      ultimately show ?thesis by (rule Suc.IH)
    next
      case no: False
      have "oddChips ps ws (nextIndexClockwise ps idx) r k = Some ps'"
        using Suc.prems(2) True sp no by simp
      with Suc.prems(1) show ?thesis by (rule Suc.IH)
    qed
  qed
qed

lemma div_nonneg_int: "0 \<le> a \<Longrightarrow> 0 \<le> a div int n" for a :: int
  by (simp add: div_int_pos_iff)

lemma nonNeg_awardPot:
  assumes "nonNegativeStacks (players s)" "0 \<le> amount pt" "awardPot s pt oddStart = Some (s', ws)"
  shows "nonNegativeStacks (players s')"
proof (cases "List.map_filter (findById (players s)) (eligiblePlayers pt)")
  case Nil
  with assms show ?thesis by (simp add: awardPot_def Let_def)
next
  case (Cons e0 rest)
  then obtain wl where wl: "pickWinners (players s) rest (handStrength (players s ! e0)) [e0] = Some wl"
    using assms(3) by (auto simp: awardPot_def Let_def split: option.splits)
  let ?base = "amount pt div int (length wl)"
  let ?ps1 = "foldl (addToStack ?base) (players s) wl"
  obtain ps2 where ps2: "oddChips ?ps1 wl (jsRem (oddStart + 1) (int (length (players s))))
        (amount pt - ?base * int (length wl)) (length (players s) * 2) = Some ps2"
    using assms(3) Cons wl by (auto simp: awardPot_def Let_def split: option.splits)
  have 1: "nonNegativeStacks ?ps1"
    using assms(1,2) by (intro nonNeg_foldl_addToStack div_nonneg_int)
  have 2: "nonNegativeStacks ps2" by (rule nonNeg_oddChips [OF 1 ps2])
  have "players s' = foldl (\<lambda>qs w. qs[w := (qs ! w)\<lparr>currentAction := WinnerLabel\<rparr>]) ps2 wl"
    using assms(3) Cons wl ps2 by (auto simp: awardPot_def Let_def)
  with 2 show ?thesis by (simp add: nonNeg_foldl_label)
qed

lemma nonNeg_awardPots:
  assumes "nonNegativeStacks (players s)" "\<forall>pt\<in>set pts. 0 \<le> amount pt"
    "awardPots s pts acc = Some (s', ws)"
  shows "nonNegativeStacks (players s')"
  using assms
proof (induction pts arbitrary: s acc)
  case Nil
  then show ?case by simp
next
  case (Cons pt rest)
  then obtain s1 w1 where a: "awardPot s pt (dealerIndex s) = Some (s1, w1)"
    and r: "awardPots s1 rest (setToArray (acc @ w1)) = Some (s', ws)"
    by (auto split: option.splits)
  have "nonNegativeStacks (players s1)"
    using Cons.prems(1,2) a by (auto intro: nonNeg_awardPot)
  then show ?case using Cons.IH [OF _ _ r] Cons.prems(2) by simp
qed

lemma evaluatePlayers_stacks:
  "evaluatePlayers cc ps = Some ps' \<Longrightarrow> map stack ps' = map stack ps"
  by (induction ps arbitrary: ps') (auto split: if_splits option.splits)

lemma nonNeg_map_stack: "map stack ps' = map stack ps \<Longrightarrow> nonNegativeStacks ps \<Longrightarrow> nonNegativeStacks ps'"
  by (metis (no_types, lifting) nonNegativeStacks_def image_iff list.set_map)

lemma computeSidePots_amounts: "\<forall>pt\<in>set (computeSidePots ps). 0 \<le> amount pt"
  by (auto simp: computeSidePots_def Let_def)

lemma nonNeg_resolveHand:
  assumes "nonNegativeStacks (players s)" "resolveHand s = Some s'"
  shows "nonNegativeStacks (players s')"
proof -
  let ?ps1 = "map (\<lambda>p. syncLegacyFields (p\<lparr>showCards := (status p \<noteq> Folded)\<rparr>)) (players s)"
  obtain ps2 where ps2: "evaluatePlayers (communityCards s) ?ps1 = Some ps2"
    using assms(2) by (auto simp: resolveHand_def Let_def split: option.splits)
  let ?next = "s\<lparr>phase := Showdown, handOver := True, players := ps2, pots := computeSidePots ps2\<rparr>"
  obtain n' ws where aw: "awardPots ?next (computeSidePots ps2) [] = Some (n', ws)"
    using assms(2) ps2 by (auto simp: resolveHand_def Let_def split: option.splits)
  have "nonNegativeStacks ?ps1" using assms(1) by (intro nonNeg_map) simp_all
  then have "nonNegativeStacks ps2"
    using evaluatePlayers_stacks [OF ps2] by (rule nonNeg_map_stack [rotated])
  then have "nonNegativeStacks (players n')"
    using nonNeg_awardPots [OF _ computeSidePots_amounts aw] by simp
  moreover have "players s' = players n'"
    using assms(2) ps2 aw by (auto simp: resolveHand_def Let_def)
  ultimately show ?thesis by simp
qed

lemma nonNeg_dealOne:
  assumes "nonNegativeStacks (fst pd)" "dealOne dealer offset pd = Some pd'"
  shows "nonNegativeStacks (fst pd')"
proof -
  let ?i = "jsRem (dealer + int offset) (int (length (fst pd)))"
  obtain p where p: "at (fst pd) ?i = Some p"
    using assms(2) by (cases "at (fst pd) ?i") (auto simp: dealOne_def Let_def)
  then have pin: "0 \<le> stack p"
    using assms(1) by (auto simp: at_def nonNegativeStacks_def split: if_splits)
  show ?thesis
  proof (cases "status p = Active")
    case True
    then have "fst pd' = (fst pd)[nat ?i := syncLegacyFields (p\<lparr>holeCards := holeCards p @ [fst (popCard (snd pd))]\<rparr>)]"
      using assms(2) p by (auto simp: dealOne_def Let_def)
    with assms(1) pin show ?thesis by (simp add: nonNeg_update)
  next
    case False
    then have "pd' = pd" using assms(2) p by (auto simp: dealOne_def Let_def)
    with assms(1) show ?thesis by simp
  qed
qed

lemma nonNeg_dealPass:
  "nonNegativeStacks (fst pd) \<Longrightarrow> dealPass dealer offsets pd = Some pd' \<Longrightarrow> nonNegativeStacks (fst pd')"
proof (induction offsets arbitrary: pd)
  case Nil
  then show ?case by simp
next
  case (Cons offset offsets)
  then obtain pd1 where 1: "dealOne dealer offset pd = Some pd1" and 2: "dealPass dealer offsets pd1 = Some pd'"
    by (auto split: option.splits)
  from nonNeg_dealOne [OF Cons.prems(1) 1] 2 show ?case by (rule Cons.IH)
qed

lemma nonNeg_postBlind:
  assumes "nonNegativeStacks ps" "k < length ps"
  shows "nonNegativeStacks (fst (postBlind ps k a))"
  using assms by (auto simp: postBlind_def intro!: nonNeg_update commitChips_stack dest: nonNeg_nth)

lemma length_postBlind: "length (fst (postBlind ps k a)) = length ps"
  by (simp add: postBlind_def)

lemma guarded_SomeD:
  "(if A then None else if B then None else case F of None \<Rightarrow> None | Some x \<Rightarrow> Some (G x)) = Some y
   \<Longrightarrow> \<not> A \<and> \<not> B \<and> (\<exists>x. y = G x)"
  by (auto split: if_splits option.splits)

lemma nonNeg_startHand:
  assumes "nonNegativeStacks (players s)" "startHand s shuffled = Some s'"
  shows "nonNegativeStacks (players s')"
proof -
  let ?ps0 = "map resetForHand (players s)"
  let ?offs = "[1..<length ?ps0 + 1]"
  have 0: "nonNegativeStacks ?ps0"
    using assms(1) by (intro nonNeg_map) (simp_all add: resetForHand_def)
  obtain pd1 where pd1: "dealPass (dealerIndex s) ?offs (?ps0, shuffled) = Some pd1"
    using assms(2) unfolding startHand_def Let_def
    by (cases "dealPass (dealerIndex s) ?offs (?ps0, shuffled)")
       (simp_all only: option.case option.distinct)
  obtain pd2 where pd2: "dealPass (dealerIndex s) ?offs pd1 = Some pd2"
    using assms(2) unfolding startHand_def Let_def pd1 option.case
    by (cases "dealPass (dealerIndex s) ?offs pd1") (simp_all only: option.case option.distinct)
  have 1: "nonNegativeStacks (fst pd1)" using nonNeg_dealPass [OF _ pd1] 0 by simp
  have 2: "nonNegativeStacks (fst pd2)" by (rule nonNeg_dealPass [OF 1 pd2])
  let ?sb = "jsRem (dealerIndex s + 1) (int (length ?ps0))"
  let ?bb = "jsRem (dealerIndex s + 2) (int (length ?ps0))"
  note rest = guarded_SomeD [OF assms(2) [unfolded startHand_def Let_def pd1 pd2 option.case]]
  have ok: "at (fst pd2) ?sb \<noteq> None" "at (fst pd2) ?bb \<noteq> None"
    using rest [THEN conjunct2, THEN conjunct1] by simp_all
  then have rng: "nat ?sb < length (fst pd2)" "nat ?bb < length (fst pd2)"
    by (auto simp: at_def split: if_splits)
  let ?sbRes = "postBlind (fst pd2) (nat ?sb) (sbAmount s)"
  let ?bbRes = "postBlind (fst ?sbRes) (nat ?bb) (bbAmount s)"
  let ?ps3 = "fst ?bbRes"
  let ?ps4 = "?ps3[nat ?sb := (?ps3 ! nat ?sb)\<lparr>currentAction := (if snd ?sbRes > 0 then SmallBlindLabel else NoLabel)\<rparr>]"
  let ?ps5 = "?ps4[nat ?bb := (?ps4 ! nat ?bb)\<lparr>currentAction := (if snd ?bbRes > 0 then BigBlindLabel else NoLabel)\<rparr>]"
  have 3: "nonNegativeStacks ?ps3"
    using 2 rng by (intro nonNeg_postBlind) (simp_all add: length_postBlind)
  have 5: "nonNegativeStacks ?ps5"
    by (intro nonNeg_label 3)
  from rest [THEN conjunct2, THEN conjunct2] have "players s' = ?ps5"
    by (elim exE) simp
  with 5 show ?thesis by simp
qed

lemma nonNeg_setPlayer:
  "nonNegativeStacks (players s) \<Longrightarrow> 0 \<le> stack p \<Longrightarrow> nonNegativeStacks (players (setPlayer s i p))"
  by (simp add: setPlayer_def nonNeg_update)

lemma nonNeg_resolveAction:
  assumes "nonNegativeStacks (players nxt)" "0 \<le> stack p"
    "resolveAction nxt i p act amt highest callAmt legal = Return s' \<or>
     resolveAction nxt i p act amt highest callAmt legal = Proceed s'"
  shows "nonNegativeStacks (players s')"
  using assms
  by (cases act)
     (auto simp: resolveAction_def Let_def setPlayer_def
           intro!: nonNeg_update commitChips_stack split: if_splits)

lemma players_dealCommunity [simp]: "players (dealCommunity s n) = players s"
  by (induction n arbitrary: s) simp_all

lemma players_burnOne [simp]: "players (burnOne s) = players s"
  by (simp add: burnOne_def)

lemma nonNeg_resetBets:
  "nonNegativeStacks (players s) \<Longrightarrow> nonNegativeStacks (players (resetBetsForNextStreet s))"
  by (simp add: resetBetsForNextStreet_def nonNeg_map)

lemma nonNeg_advanceStreet:
  assumes "nonNegativeStacks (players s)" "advanceStreet s = Some (adv, s')"
  shows "nonNegativeStacks (players s')"
proof (cases "phase s = River")
  case True
  with assms show ?thesis by (simp add: advanceStreet_def)
next
  case False
  let ?s1 = "(if phase s = Preflop then (dealCommunity (burnOne s) 3)\<lparr>phase := Flop\<rparr>
                  else if phase s = Flop then (dealCommunity (burnOne s) 1)\<lparr>phase := Turn\<rparr>
                  else if phase s = Turn then (dealCommunity (burnOne s) 1)\<lparr>phase := River\<rparr>
                  else s)"
  have "players ?s1 = players s" by simp
  then have "nonNegativeStacks (players (resetBetsForNextStreet ?s1))"
    using assms(1) by (intro nonNeg_resetBets) simp
  moreover have "players s' = players (resetBetsForNextStreet ?s1)"
    using assms(2) False by (auto simp: advanceStreet_def Let_def split: option.splits)
  ultimately show ?thesis by simp
qed

lemma sum_pots_nonneg: "0 \<le> sum_list (map amount (computeSidePots ps))"
  using computeSidePots_amounts [of ps] by (intro sum_list_nonneg) auto

lemma nonNeg_finishAction:
  assumes "nonNegativeStacks (players s)" "finishAction s i = Some s'"
  shows "nonNegativeStacks (players s')"
proof (cases "fst (maybeEndHandIfOneLeft s)")
  case True
  let ?n = "snd (maybeEndHandIfOneLeft s)"
  have n: "nonNegativeStacks (players ?n)" using assms(1) by (simp add: maybeEnd_players)
  have "nonNegativeStacks (addToStack (sum_list (map amount (computeSidePots (players ?n)))) (players ?n) k)" for k
    by (intro nonNeg_addToStack n sum_pots_nonneg)
  with n True assms(2) show ?thesis
    by (auto simp: finishAction_def Let_def split: option.splits list.splits)
next
  case False
  then have same: "snd (maybeEndHandIfOneLeft s) = s" by (rule maybeEnd_False)
  obtain r where r: "findNextToAct s i = Some r"
    using assms(2) False same by (auto simp: finishAction_def Let_def split: option.splits)
  let ?n1 = "s\<lparr>betting := (betting s)\<lparr>currentActorIndex := r\<rparr>\<rparr>"
  have n1: "nonNegativeStacks (players ?n1)" using assms(1) by simp
  show ?thesis
  proof (cases "bettingRoundShouldEnd ?n1 r")
    case no: False
    with assms(2) False same r have "s' = ?n1" by (simp add: finishAction_def Let_def)
    with n1 show ?thesis by simp
  next
    case yes: True
    then obtain adv n2 where a: "advanceStreet ?n1 = Some (adv, n2)"
      and fin: "(if \<not> adv then resolveHand n2 else Some n2) = Some s'"
      using assms(2) False same r by (auto simp: finishAction_def Let_def split: option.splits)
    have "nonNegativeStacks (players n2)" by (rule nonNeg_advanceStreet [OF n1 a])
    with fin show ?thesis by (auto split: if_splits intro: nonNeg_resolveHand)
  qed
qed

lemma nonNeg_applyAction:
  assumes "nonNegativeStacks (players s)" "applyAction s i act amt = Some s'"
  shows "nonNegativeStacks (players s')"
proof (cases "handOver s \<or> at (players s) i = None \<or> (\<exists>p. at (players s) i = Some p \<and> \<not> canAct p)")
  case True
  then have "applyAction s i act amt = Some s" by (auto simp: applyAction_def)
  with assms show ?thesis by simp
next
  case False
  then obtain p where p: "\<not> handOver s" "at (players s) i = Some p" "canAct p" by auto
  let ?next = "s\<lparr>betting := (betting s)\<lparr>actedSinceLastFullRaise := insert i (actedSinceLastFullRaise (betting s)),
                         hasActedThisRound := True\<rparr>\<rparr>"
  let ?res = "resolveAction ?next i p act amt (highestBetThisRound (betting s))
                (max 0 (highestBetThisRound (betting s) - currentBet p)) (getLegalActions s i)"
  have sp: "0 \<le> stack p" using p(3) by (simp add: canAct_def)
  have nn: "nonNegativeStacks (players ?next)" using assms(1) by simp
  have ap: "applyAction s i act amt = (case ?res of Return t \<Rightarrow> Some t | Proceed t \<Rightarrow> finishAction t i)"
    using p by (simp add: applyAction_def Let_def)
  show ?thesis
  proof (cases ?res)
    case (Return t)
    then have "nonNegativeStacks (players t)" using nonNeg_resolveAction [OF nn sp] by blast
    with Return ap assms(2) show ?thesis by simp
  next
    case (Proceed t)
    then have "nonNegativeStacks (players t)" using nonNeg_resolveAction [OF nn sp] by blast
    with Proceed ap assms(2) show ?thesis by (auto intro: nonNeg_finishAction)
  qed
qed

lemma startHand_threeHanded:
  "startHand (createInitialGameState (createPlayers 3 1000) 5 10 0) createDeck = Some threeHanded"
proof -
  have "startHand (createInitialGameState (createPlayers 3 1000) 5 10 0) createDeck \<noteq> None"
    by (simp add: start_defs upt_0_3 upt_1_4)
  then show ?thesis by (auto simp: threeHanded_def)
qed

lemma applyAction_afterShortAllIn:
  "applyAction shortAllInGame 2 ALL_IN 120 = Some afterShortAllIn"
  using applyAction_shortAllIn(1) by (auto simp: afterShortAllIn_def)

lemma oddChips_no_remainder: "oddChips ps ws idx 0 k = Some ps"
  by (cases k) simp_all

lemma threeHanded_community: "communityCards threeHanded = []"
  by (subst threeHanded_eq) simp

lemma resolveHand_threeHanded:
  "map_option (\<lambda>s. map stack (players s)) (resolveHand threeHanded) = Some [1000, 1000, 1000]"
  by (simp add: resolveHand_def threeHanded_fields threeHanded_community syncLegacyFields_def evaluateHand_def
        computeSidePots_def contributorsOf_def levelsOf_def setToArray_def jsSort_def
        awardPot_def findById_def List.map_filter_def compareHandsResults_def addToStack_def
        jsRem_def at_def nextIndexClockwise_def Let_def upt_0_3 oddChips_no_remainder)

subsection \<open>Scoring defined cards\<close>

lemma getCombinations_subset: "c \<in> set (getCombinations xs k) \<Longrightarrow> set c \<subseteq> set xs"
  by (induction xs k arbitrary: c rule: getCombinations.induct) (auto, blast+)

lemma getCombinations_nonempty: "0 < k \<Longrightarrow> k \<le> length xs \<Longrightarrow> getCombinations xs k \<noteq> []"
  by (induction xs k rule: getCombinations.induct) auto

lemma those_defined: "None \<notin> set cs \<Longrightarrow> \<exists>ds. those cs = Some ds"
proof (induction cs)
  case Nil
  then show ?case by simp
next
  case (Cons c cs)
  then obtain x ds where "c = Some x" "those cs = Some ds" by (cases c) auto
  then show ?case by simp
qed

lemma evaluate5CardHand_defined: "None \<notin> set cs \<Longrightarrow> \<exists>h. evaluate5CardHand cs = Some h"
  using those_defined [of cs] by (auto simp: evaluate5CardHand_def)

lemma bestOfCombos_defined:
  "\<forall>c\<in>set cs. None \<notin> set c \<Longrightarrow>
   \<exists>r. bestOfCombos cs b = Some r \<and> (cs \<noteq> [] \<or> b \<noteq> None \<longrightarrow> r \<noteq> None)"
proof (induction cs arbitrary: b)
  case Nil
  then show ?case by simp
next
  case (Cons c cs)
  then obtain h where h: "evaluate5CardHand c = Some h"
    using evaluate5CardHand_defined [of c] by auto
  from Cons.IH [of "Some (betterHand b h)"] Cons.prems h show ?case by auto
qed

lemma evaluateHand_defined:
  assumes "None \<notin> set hole" "None \<notin> set community"
  shows "\<exists>h. evaluateHand hole community = Some h"
proof (cases "length (hole @ community) < 5")
  case True
  then show ?thesis by (simp add: evaluateHand_def)
next
  case False
  let ?cs = "getCombinations (hole @ community) 5"
  have "\<forall>c\<in>set ?cs. None \<notin> set c"
    using assms getCombinations_subset [of _ "hole @ community" 5] by fastforce
  moreover have "?cs \<noteq> []" using False by (intro getCombinations_nonempty) simp_all
  ultimately obtain r where "bestOfCombos ?cs None = Some r" "r \<noteq> None"
    using bestOfCombos_defined [of ?cs None] by auto
  with False show ?thesis by (auto simp: evaluateHand_def Let_def)
qed

subsection \<open>Resolving a hand returns\<close>

lemma evaluatePlayers_defined:
  assumes "\<forall>p\<in>set ps. status p \<noteq> Folded \<and> 2 \<le> length (holeCards p) \<and> None \<notin> set (holeCards p)"
    and "None \<notin> set cc"
  shows "\<exists>ps2. evaluatePlayers cc ps = Some ps2 \<and> length ps2 = length ps
               \<and> (\<forall>p\<in>set ps2. handStrength p \<noteq> None)"
  using assms(1)
proof (induction ps)
  case Nil
  then show ?case by simp
next
  case (Cons p ps)
  then obtain ps2 where ih: "evaluatePlayers cc ps = Some ps2" "length ps2 = length ps"
    "\<forall>p\<in>set ps2. handStrength p \<noteq> None" by auto
  obtain h where h: "evaluateHand (holeCards p) cc = Some h"
    using evaluateHand_defined [of "holeCards p" cc] Cons.prems assms(2) by auto
  have "\<not> (status p = Folded \<or> length (holeCards p) < 2)" using Cons.prems by auto
  with ih h show ?case by simp
qed

lemma findById_range: "findById ps i = Some k \<Longrightarrow> k < length ps"
  by (auto simp: findById_def find_Some_iff)

lemma eligible_range: "\<forall>k\<in>set (List.map_filter (findById ps) ids). k < length ps"
  by (auto simp: List.map_filter_def dest: findById_range)

lemma pickWinners_defined:
  assumes "\<forall>i\<in>set is. i < length ps" "\<forall>p\<in>set ps. handStrength p \<noteq> None"
  shows "\<exists>w. pickWinners ps is (Some b) ws = Some w"
  using assms(1)
proof (induction "is" arbitrary: b ws)
  case Nil
  then show ?case by simp
next
  case (Cons i rest)
  then have "handStrength (ps ! i) \<noteq> None" using assms(2) by simp
  then obtain h where h: "handStrength (ps ! i) = Some h" by auto
  from Cons.IH [of h "[i]"] Cons.IH [of b "ws @ [i]"] Cons.IH [of b ws] Cons.prems h
  show ?case by (auto simp: Let_def)
qed

lemma scored_update:
  "\<forall>p\<in>set ps. handStrength p \<noteq> None \<Longrightarrow> (k < length ps \<Longrightarrow> handStrength x \<noteq> None)
   \<Longrightarrow> \<forall>p\<in>set (ps[k := x]). handStrength p \<noteq> None"
  by (cases "k < length ps") (auto simp: list_update_beyond dest!: set_update_subset_insert [THEN subsetD])

lemma scored_addToStack:
  "\<forall>p\<in>set ps. handStrength p \<noteq> None \<Longrightarrow> \<forall>p\<in>set (addToStack n ps w). handStrength p \<noteq> None"
  unfolding addToStack_def by (rule scored_update) (simp_all add: syncLegacyFields_def)

lemma length_addToStack [simp]: "length (addToStack n ps w) = length ps"
  by (simp add: addToStack_def)

lemma scored_foldl_addToStack:
  "\<forall>p\<in>set ps. handStrength p \<noteq> None \<Longrightarrow>
   (\<forall>p\<in>set (foldl (addToStack n) ps ws). handStrength p \<noteq> None)
   \<and> length (foldl (addToStack n) ps ws) = length ps"
proof (induction ws arbitrary: ps)
  case Nil
  then show ?case by simp
next
  case (Cons w ws)
  from Cons.IH [OF scored_addToStack [OF Cons.prems, of n w]] show ?case by simp
qed

lemma scored_foldl_label:
  "\<forall>p\<in>set ps. handStrength p \<noteq> None \<Longrightarrow>
   (\<forall>p\<in>set (foldl (\<lambda>qs w. qs[w := (qs ! w)\<lparr>currentAction := l\<rparr>]) ps ws). handStrength p \<noteq> None)
   \<and> length (foldl (\<lambda>qs w. qs[w := (qs ! w)\<lparr>currentAction := l\<rparr>]) ps ws) = length ps"
proof (induction ws arbitrary: ps)
  case Nil
  then show ?case by simp
next
  case (Cons w ws)
  have "\<forall>p\<in>set (ps[w := (ps ! w)\<lparr>currentAction := l\<rparr>]). handStrength p \<noteq> None"
    using Cons.prems by (intro scored_update) simp_all
  from Cons.IH [OF this] show ?case by simp
qed

lemma oddChips_defined:
  assumes "0 \<le> idx" "idx < int (length ps)" "\<forall>p\<in>set ps. handStrength p \<noteq> None"
  shows "\<exists>ps'. oddChips ps ws idx r k = Some ps' \<and> length ps' = length ps
             \<and> (\<forall>p\<in>set ps'. handStrength p \<noteq> None)"
  using assms
proof (induction k arbitrary: ps idx r)
  case 0
  then show ?case by simp
next
  case (Suc k)
  have ne: "ps \<noteq> []" using Suc.prems by (cases ps) auto
  have a: "at ps idx = Some (ps ! nat idx)" using Suc.prems by (simp add: at_def)
  note nx = nextIndexClockwise_range(2,3) [OF Suc.prems(1) ne]
  show ?case
  proof (cases "r > 0 \<and> list_ex (\<lambda>w. pid (ps ! w) = pid (ps ! nat idx)) ws")
    case True
    have "\<exists>ps'. oddChips (addToStack 1 ps (nat idx)) ws (nextIndexClockwise ps idx) (r - 1) k = Some ps'
             \<and> length ps' = length (addToStack 1 ps (nat idx)) \<and> (\<forall>p\<in>set ps'. handStrength p \<noteq> None)"
      using nx Suc.prems(3) by (intro Suc.IH) (simp_all add: scored_addToStack)
    with True a show ?thesis by simp
  next
    case False
    from Suc.IH [OF nx Suc.prems(3), of r] Suc.prems False a show ?thesis by auto
  qed
qed

lemma awardPot_defined:
  assumes "\<forall>p\<in>set (players s). handStrength p \<noteq> None" "players s \<noteq> []" "-1 \<le> oddStart"
  shows "\<exists>ps' ws. awardPot s pt oddStart = Some (s\<lparr>players := ps'\<rparr>, ws)
             \<and> length ps' = length (players s) \<and> (\<forall>p\<in>set ps'. handStrength p \<noteq> None)"
proof (cases "List.map_filter (findById (players s)) (eligiblePlayers pt)")
  case Nil
  then have "awardPot s pt oddStart = Some (s\<lparr>players := players s\<rparr>, [])"
    by (simp add: awardPot_def Let_def)
  with assms(1) show ?thesis by blast
next
  case (Cons e0 rest)
  let ?ps = "players s"
  have rng: "e0 < length ?ps" "\<forall>i\<in>set rest. i < length ?ps"
    using eligible_range [of ?ps "eligiblePlayers pt"] Cons by simp_all
  then obtain b where b: "handStrength (?ps ! e0) = Some b" using assms(1) by fastforce
  obtain wl where wl: "pickWinners ?ps rest (handStrength (?ps ! e0)) [e0] = Some wl"
    using pickWinners_defined [OF rng(2) assms(1)] b by auto
  let ?base = "amount pt div int (length wl)"
  let ?ps1 = "foldl (addToStack ?base) ?ps wl"
  let ?start = "jsRem (oddStart + 1) (int (length ?ps))"
  have n: "0 < int (length ?ps)" using assms(2) by simp
  have st: "0 \<le> ?start" "?start < int (length ?ps1)"
    using assms(3) n scored_foldl_addToStack [OF assms(1), of ?base wl] by (simp_all add: jsRem_def)
  have s1: "\<forall>p\<in>set ?ps1. handStrength p \<noteq> None" "length ?ps1 = length ?ps"
    using scored_foldl_addToStack [OF assms(1), of ?base wl] by simp_all
  obtain ps2 where ps2: "oddChips ?ps1 wl ?start (amount pt - ?base * int (length wl)) (length ?ps * 2) = Some ps2"
     "length ps2 = length ?ps1" "\<forall>p\<in>set ps2. handStrength p \<noteq> None"
    using oddChips_defined [OF st s1(1)] by blast
  let ?ps3 = "foldl (\<lambda>qs w. qs[w := (qs ! w)\<lparr>currentAction := WinnerLabel\<rparr>]) ps2 wl"
  have "awardPot s pt oddStart = Some (s\<lparr>players := ?ps3\<rparr>, map (\<lambda>w. pid (?ps3 ! w)) wl)"
    using Cons wl ps2(1) by (simp add: awardPot_def Let_def)
  moreover have "length ?ps3 = length ?ps" "\<forall>p\<in>set ?ps3. handStrength p \<noteq> None"
    using scored_foldl_label [OF ps2(3), of WinnerLabel wl] ps2(2) s1(2) by simp_all
  ultimately show ?thesis by blast
qed

lemma awardPots_defined:
  assumes "\<forall>p\<in>set (players s). handStrength p \<noteq> None" "players s \<noteq> []" "-1 \<le> dealerIndex s"
  shows "\<exists>ps' ws. awardPots s pts acc = Some (s\<lparr>players := ps'\<rparr>, ws)"
  using assms
proof (induction pts arbitrary: s acc)
  case Nil
  have "s = s\<lparr>players := players s\<rparr>" by simp
  then show ?case by (metis awardPots.simps(1))
next
  case (Cons pt rest)
  obtain ps1 w1 where a: "awardPot s pt (dealerIndex s) = Some (s\<lparr>players := ps1\<rparr>, w1)"
    "length ps1 = length (players s)" "\<forall>p\<in>set ps1. handStrength p \<noteq> None"
    using awardPot_defined [OF Cons.prems] by blast
  let ?s1 = "s\<lparr>players := ps1\<rparr>"
  have "\<exists>ps' ws. awardPots ?s1 rest (setToArray (acc @ w1)) = Some (?s1\<lparr>players := ps'\<rparr>, ws)"
    using a Cons.prems by (intro Cons.IH) auto
  with a(1) show ?case by auto
qed

lemma resolveHand_defined:
  assumes "\<forall>p\<in>set (players s). status p \<noteq> Folded \<and> 2 \<le> length (holeCards p) \<and> None \<notin> set (holeCards p)"
    and "None \<notin> set (communityCards s)" "players s \<noteq> []" "-1 \<le> dealerIndex s"
  shows "\<exists>s'. resolveHand s = Some s' \<and> phase s' = Showdown \<and> handOver s'
             \<and> communityCards s' = communityCards s"
proof -
  let ?ps1 = "map (\<lambda>p. syncLegacyFields (p\<lparr>showCards := (status p \<noteq> Folded)\<rparr>)) (players s)"
  have "\<forall>p\<in>set ?ps1. status p \<noteq> Folded \<and> 2 \<le> length (holeCards p) \<and> None \<notin> set (holeCards p)"
    using assms(1) by (simp add: syncLegacyFields_def)
  then obtain ps2 where ps2: "evaluatePlayers (communityCards s) ?ps1 = Some ps2"
    "length ps2 = length ?ps1" "\<forall>p\<in>set ps2. handStrength p \<noteq> None"
    using evaluatePlayers_defined [OF _ assms(2)] by blast
  let ?next = "s\<lparr>phase := Showdown, handOver := True, players := ps2, pots := computeSidePots ps2\<rparr>"
  have "ps2 \<noteq> []" using ps2(2) assms(3) by auto
  then obtain ps' ws where aw: "awardPots ?next (computeSidePots ps2) [] = Some (?next\<lparr>players := ps'\<rparr>, ws)"
    using awardPots_defined [of ?next "computeSidePots ps2" "[]"] ps2(3) assms(4) by auto
  show ?thesis
    using ps2(1) aw by (simp add: resolveHand_def Let_def)
qed

subsection \<open>Dealing, and two players who can both act\<close>

lemma popCard_length: "length (snd (popCard d)) = length d - 1"
  by (simp add: popCard_def)

lemma popCard_defined: "d \<noteq> [] \<Longrightarrow> fst (popCard d) \<noteq> None"
  by (simp add: popCard_def)

lemma dealCommunity_eq:
  "\<exists>cc d. dealCommunity s n = s\<lparr>communityCards := communityCards s @ cc, deck := d\<rparr>
         \<and> length cc = n \<and> length d = length (deck s) - n
         \<and> (n \<le> length (deck s) \<longrightarrow> None \<notin> set cc)"
proof (induction n arbitrary: s)
  case 0
  have "s = s\<lparr>communityCards := communityCards s @ [], deck := deck s\<rparr>" by simp
  then show ?case by (metis dealCommunity.simps(1) diff_zero length_0_conv list.set(1) empty_iff)
next
  case (Suc n)
  let ?c = "fst (popCard (deck s))"
  let ?d1 = "snd (popCard (deck s))"
  let ?s1 = "s\<lparr>communityCards := communityCards s @ [?c], deck := ?d1\<rparr>"
  from Suc.IH [of ?s1] obtain cc d where
    ih: "dealCommunity ?s1 n = ?s1\<lparr>communityCards := communityCards ?s1 @ cc, deck := d\<rparr>"
      "length cc = n" "length d = length (deck ?s1) - n"
      "n \<le> length (deck ?s1) \<longrightarrow> None \<notin> set cc" by blast
  have 1: "dealCommunity s (Suc n) = s\<lparr>communityCards := communityCards s @ (?c # cc), deck := d\<rparr>"
    using ih(1) by simp
  have 2: "length (?c # cc) = Suc n" using ih(2) by simp
  have 3: "length d = length (deck s) - Suc n" using ih(3) by (simp add: popCard_length)
  have 4: "Suc n \<le> length (deck s) \<longrightarrow> None \<notin> set (?c # cc)"
  proof
    assume le: "Suc n \<le> length (deck s)"
    then have "deck s \<noteq> []" by auto
    then have "?c \<noteq> None" by (rule popCard_defined)
    moreover have "None \<notin> set cc" using ih(4) le by (simp add: popCard_length)
    ultimately show "None \<notin> set (?c # cc)" by auto
  qed
  from 1 2 3 4 show ?case by blast
qed

lemma burnOne_eq: "\<exists>d. burnOne s = s\<lparr>deck := d\<rparr> \<and> length d = length (deck s) - 1"
proof (cases "deck s = []")
  case True
  then have "burnOne s = s\<lparr>deck := deck s\<rparr>" by (simp add: burnOne_def)
  with True show ?thesis by (metis diff_0_eq_0 list.size(3))
next
  case False
  then have "burnOne s = s\<lparr>deck := snd (popCard (deck s))\<rparr>" by (simp add: burnOne_def)
  then show ?thesis using popCard_length by blast
qed

lemma burn_and_deal:
  "\<exists>cc d. dealCommunity (burnOne s) n = s\<lparr>communityCards := communityCards s @ cc, deck := d\<rparr>
         \<and> length cc = n \<and> length d = length (deck s) - 1 - n
         \<and> (n + 1 \<le> length (deck s) \<longrightarrow> None \<notin> set cc)"
proof -
  obtain d0 where b: "burnOne s = s\<lparr>deck := d0\<rparr>" "length d0 = length (deck s) - 1"
    using burnOne_eq by blast
  from dealCommunity_eq [of "s\<lparr>deck := d0\<rparr>" n] obtain cc d where
    "dealCommunity (s\<lparr>deck := d0\<rparr>) n = s\<lparr>deck := d0\<rparr>\<lparr>communityCards := communityCards (s\<lparr>deck := d0\<rparr>) @ cc, deck := d\<rparr>"
    "length cc = n" "length d = length (deck (s\<lparr>deck := d0\<rparr>)) - n"
    "n \<le> length (deck (s\<lparr>deck := d0\<rparr>)) \<longrightarrow> None \<notin> set cc" by blast
  then have "dealCommunity (burnOne s) n = s\<lparr>communityCards := communityCards s @ cc, deck := d\<rparr>"
    "length cc = n" "length d = length (deck s) - 1 - n" "n + 1 \<le> length (deck s) \<longrightarrow> None \<notin> set cc"
    using b by auto
  then show ?thesis by blast
qed

lemma two_players: "length ps = 2 \<Longrightarrow> \<exists>p0 p1. ps = [p0, p1]"
  by (cases ps; cases "tl ps") auto

lemma headsUp_findNext:
  assumes "headsUpReady s" "i = 0 \<or> i = 1"
  shows "findNextToAct s i = Some (1 - i)"
proof -
  have "length (players s) = 2" using assms(1) by (simp add: headsUpReady_def)
  then obtain p0 p1 where ps: "players s = [p0, p1]"
    using two_players by blast
  then have "canAct p0" "canAct p1" using assms(1) by (auto simp: headsUpReady_def canAct_def)
  with ps assms(2) show ?thesis
    by (auto simp: findNextToAct_def nextIndexClockwise_def jsRem_def at_def)
qed

lemma headsUp_not_one_left:
  assumes "headsUpReady s"
  shows "maybeEndHandIfOneLeft s = (False, s)"
proof -
  have "length (players s) = 2" using assms(1) by (simp add: headsUpReady_def)
  then obtain p0 p1 where ps: "players s = [p0, p1]"
    using two_players by blast
  then show ?thesis
    using assms by (auto simp: maybeEndHandIfOneLeft_def headsUpReady_def isInHand_def isFolded_def Let_def)
qed

lemma headsUp_finishAction:
  assumes "headsUpReady s" "i = 0 \<or> i = 1"
  shows "finishAction s i =
     (let next1 = s\<lparr>betting := (betting s)\<lparr>currentActorIndex := 1 - i\<rparr>\<rparr> in
      if bettingRoundShouldEnd next1 (1 - i) then
        (case advanceStreet next1 of
           None \<Rightarrow> None
         | Some (advanced, next2) \<Rightarrow> if \<not> advanced then resolveHand next2 else Some next2)
      else Some next1)"
  by (simp add: finishAction_def headsUp_not_one_left [OF assms(1)] headsUp_findNext [OF assms] Let_def)

lemma headsUp_settled:
  assumes "headsUpReady s"
  shows "allPlayersSettledToHighest s = (\<forall>p\<in>set (players s). currentBet p = highestBetThisRound (betting s))"
  using assms by (auto simp: allPlayersSettledToHighest_def headsUpReady_def list_all_iff isFolded_def isInHand_def)

subsection \<open>Advancing the street heads-up\<close>

lemma ready_after_reset:
  assumes "headsUpReady s" "None \<notin> set cc"
  shows "headsUpReady (resetBetsForNextStreet (s\<lparr>communityCards := communityCards s @ cc, deck := d, phase := ph'\<rparr>))"
  using assms by (auto simp: headsUpReady_def resetBetsForNextStreet_def syncLegacyFields_def)

lemma open_after_reset:
  assumes "headsUpReady s" "None \<notin> set cc"
    and "length (communityCards s) + length cc = fst (cardsFor ph')" "snd (cardsFor ph') \<le> length d"
    and "s2 = resetBetsForNextStreet (s\<lparr>communityCards := communityCards s @ cc, deck := d, phase := ph'\<rparr>)"
  shows "streetOpen ph' False
           (s2\<lparr>betting := (betting s2)\<lparr>startingIndex := 1 - dealerIndex s,
                                       currentActorIndex := 1 - dealerIndex s\<rparr>\<rparr>)"
  using assms by (auto simp: streetOpen_def headsUpReady_def resetBetsForNextStreet_def syncLegacyFields_def)

lemma advanceStreet_headsUp:
  assumes r: "headsUpReady s"
    and ph: "phase s = Preflop \<and> ph' = Flop \<and> n = (3::nat) \<or> phase s = Flop \<and> ph' = Turn \<and> n = 1
             \<or> phase s = Turn \<and> ph' = River \<and> n = 1"
    and len: "length (communityCards s) = fst (cardsFor (phase s))" "snd (cardsFor (phase s)) \<le> length (deck s)"
  shows "\<exists>s'. advanceStreet s = Some (True, s') \<and> streetOpen ph' False s'"
proof -
  obtain cc d where bd: "dealCommunity (burnOne s) n = s\<lparr>communityCards := communityCards s @ cc, deck := d\<rparr>"
    "length cc = n" "length d = length (deck s) - 1 - n" "n + 1 \<le> length (deck s) \<longrightarrow> None \<notin> set cc"
    using burn_and_deal by blast
  have enough: "n + 1 \<le> length (deck s)" using ph len(2) by auto
  then have cc: "None \<notin> set cc" using bd(4) by simp
  let ?s1 = "s\<lparr>communityCards := communityCards s @ cc, deck := d, phase := ph'\<rparr>"
  let ?s2 = "resetBetsForNextStreet ?s1"
  have s1: "(if phase s = Preflop then (dealCommunity (burnOne s) 3)\<lparr>phase := Flop\<rparr>
                  else if phase s = Flop then (dealCommunity (burnOne s) 1)\<lparr>phase := Turn\<rparr>
                  else if phase s = Turn then (dealCommunity (burnOne s) 1)\<lparr>phase := River\<rparr>
                  else s) = ?s1"
    using ph bd(1) by auto
  have r2: "headsUpReady ?s2" by (rule ready_after_reset [OF r cc])
  have dl: "dealerIndex ?s2 = dealerIndex s" by (simp add: resetBetsForNextStreet_def)
  have dd: "dealerIndex s = 0 \<or> dealerIndex s = 1" using r by (simp add: headsUpReady_def)
  have f: "findNextToAct ?s2 (dealerIndex ?s2) = Some (1 - dealerIndex s)"
    using headsUp_findNext [OF r2, of "dealerIndex s"] dd dl by simp
  have nr: "phase s \<noteq> River" using ph by auto
  have adv: "advanceStreet s = Some (True, ?s2\<lparr>betting := (betting ?s2)\<lparr>startingIndex := 1 - dealerIndex s,
                                       currentActorIndex := 1 - dealerIndex s\<rparr>\<rparr>)"
    unfolding advanceStreet_def Let_def s1 using nr f by simp
  have "length (communityCards s) + length cc = fst (cardsFor ph')" "snd (cardsFor ph') \<le> length d"
    using ph len bd(2,3) by auto
  from open_after_reset [OF r cc this refl] adv show ?thesis by blast
qed

subsection \<open>A passive action\<close>

lemma ready_update:
  assumes "headsUpReady s" "status q = Active" "0 < stack q" "length (holeCards q) = 2"
    "None \<notin> set (holeCards q)"
  shows "headsUpReady (s\<lparr>betting := b, players := (players s)[k := q]\<rparr>)"
  using assms by (auto simp: headsUpReady_def dest!: set_update_subset_insert [THEN subsetD])

lemma headsUp_seat:
  assumes "headsUpReady s" "i = 0 \<or> i = 1"
  shows "at (players s) i = Some (players s ! nat i)" "players s ! nat i \<in> set (players s)"
    "canAct (players s ! nat i)"
proof -
  have l: "length (players s) = 2" using assms(1) by (simp add: headsUpReady_def)
  then show 1: "at (players s) i = Some (players s ! nat i)" using assms(2) by (auto simp: at_def)
  show 2: "players s ! nat i \<in> set (players s)" using l assms(2) by auto
  then show "canAct (players s ! nat i)" using assms(1) by (simp add: headsUpReady_def canAct_def)
qed

lemma passive_action:
  assumes r: "headsUpReady s" and i: "i = 0 \<or> i = 1"
    and actor: "currentActorIndex (betting s) = i"
    and cb: "currentBet (players s ! nat i) \<le> highestBetThisRound (betting s)"
    and enough: "highestBetThisRound (betting s) - currentBet (players s ! nat i) < stack (players s ! nat i)"
  shows "\<exists>q. passiveStep s =
            finishAction (s\<lparr>betting := (betting s)\<lparr>actedSinceLastFullRaise :=
                                 insert i (actedSinceLastFullRaise (betting s)),
                               hasActedThisRound := True\<rparr>,
                            players := (players s)[nat i := q]\<rparr>) i
          \<and> status q = Active \<and> 0 < stack q \<and> holeCards q = holeCards (players s ! nat i)
          \<and> currentBet q = highestBetThisRound (betting s)"
proof -
  let ?p = "players s ! nat i"
  let ?h = "highestBetThisRound (betting s)"
  note seat = headsUp_seat [OF r i]
  have ho: "\<not> handOver s" using r by (simp add: headsUpReady_def)
  have act: "status ?p = Active" "0 < stack ?p" using seat(3) by (simp_all add: canAct_def)
  show ?thesis
  proof (cases "currentBet ?p < ?h")
    case True
    let ?q = "syncLegacyFields ((fst (commitChips ?p (max 0 (?h - currentBet ?p))))\<lparr>currentAction := CallLabel\<rparr>)"
    have "passiveStep s = applyAction s i CALL 0"
      using True seat(1) actor by (simp add: passiveStep_def Let_def)
    also have "\<dots> = finishAction (s\<lparr>betting := (betting s)\<lparr>actedSinceLastFullRaise :=
                                 insert i (actedSinceLastFullRaise (betting s)),
                               hasActedThisRound := True\<rparr>,
                            players := (players s)[nat i := ?q]\<rparr>) i"
      using True seat(1,3) ho act enough
      by (simp add: applyAction_def resolveAction_def getLegalActions_def setPlayer_def Let_def
            commitChips_def syncLegacyFields_def)
    finally have "passiveStep s = finishAction (s\<lparr>betting := (betting s)\<lparr>actedSinceLastFullRaise :=
                                 insert i (actedSinceLastFullRaise (betting s)),
                               hasActedThisRound := True\<rparr>,
                            players := (players s)[nat i := ?q]\<rparr>) i" .
    moreover have "status ?q = Active \<and> 0 < stack ?q \<and> holeCards ?q = holeCards ?p \<and> currentBet ?q = ?h"
      using True act enough by (simp add: commitChips_def syncLegacyFields_def Let_def)
    ultimately show ?thesis by blast
  next
    case False
    with cb have eq: "currentBet ?p = ?h" by simp
    let ?q = "syncLegacyFields (?p\<lparr>currentAction := CheckLabel\<rparr>)"
    have "passiveStep s = applyAction s i CHECK 0"
      using False seat(1) actor by (simp add: passiveStep_def Let_def)
    also have "\<dots> = finishAction (s\<lparr>betting := (betting s)\<lparr>actedSinceLastFullRaise :=
                                 insert i (actedSinceLastFullRaise (betting s)),
                               hasActedThisRound := True\<rparr>,
                            players := (players s)[nat i := ?q]\<rparr>) i"
      using eq seat(1,3) ho
      by (simp add: applyAction_def resolveAction_def getLegalActions_def setPlayer_def Let_def)
    finally have "passiveStep s = finishAction (s\<lparr>betting := (betting s)\<lparr>actedSinceLastFullRaise :=
                                 insert i (actedSinceLastFullRaise (betting s)),
                               hasActedThisRound := True\<rparr>,
                            players := (players s)[nat i := ?q]\<rparr>) i" .
    moreover have "status ?q = Active \<and> 0 < stack ?q \<and> holeCards ?q = holeCards ?p \<and> currentBet ?q = ?h"
      using eq act by (simp add: syncLegacyFields_def)
    ultimately show ?thesis by blast
  qed
qed

subsection \<open>The steps of passive play\<close>

lemma headsUp_two: "headsUpReady s \<Longrightarrow> \<exists>p0 p1. players s = [p0, p1]"
  by (rule two_players) (simp add: headsUpReady_def)

lemma step_first:
  assumes "streetOpen ph False s"
  shows "\<exists>s'. passiveStep s = Some s' \<and> streetOpen ph True s'"
proof -
  have r: "headsUpReady s" using assms by (simp add: streetOpen_def)
  have d: "dealerIndex s = 0 \<or> dealerIndex s = 1" using r by (simp add: headsUpReady_def)
  let ?i = "1 - dealerIndex s"
  have i: "?i = 0 \<or> ?i = 1" using d by auto
  obtain p0 p1 where ps: "players s = [p0, p1]"
    using headsUp_two [OF r] by blast
  have zero: "highestBetThisRound (betting s) = 0" "currentBet p0 = 0" "currentBet p1 = 0"
    using assms ps by (simp_all add: streetOpen_def)
  have pos: "0 < stack p0" "0 < stack p1" "length (holeCards p0) = 2" "length (holeCards p1) = 2"
    "None \<notin> set (holeCards p0)" "None \<notin> set (holeCards p1)"
    using r ps by (simp_all add: headsUpReady_def)
  have actor: "currentActorIndex (betting s) = ?i" using assms by (simp add: streetOpen_def)
  have cb: "currentBet (players s ! nat ?i) \<le> highestBetThisRound (betting s)"
    and en: "highestBetThisRound (betting s) - currentBet (players s ! nat ?i) < stack (players s ! nat ?i)"
    using d ps zero pos by auto
  from passive_action [OF r i actor cb en] obtain q where
    st: "passiveStep s = finishAction (s\<lparr>betting := (betting s)\<lparr>actedSinceLastFullRaise :=
                                 insert ?i (actedSinceLastFullRaise (betting s)),
                               hasActedThisRound := True\<rparr>,
                            players := (players s)[nat ?i := q]\<rparr>) ?i"
    and q: "status q = Active" "0 < stack q" "holeCards q = holeCards (players s ! nat ?i)"
       "currentBet q = highestBetThisRound (betting s)" by blast
  let ?t = "s\<lparr>betting := (betting s)\<lparr>actedSinceLastFullRaise :=
                                 insert ?i (actedSinceLastFullRaise (betting s)),
                               hasActedThisRound := True\<rparr>,
                            players := (players s)[nat ?i := q]\<rparr>"
  have hq: "length (holeCards q) = 2" "None \<notin> set (holeCards q)"
    using q(3) d ps pos by auto
  have rt: "headsUpReady ?t" by (rule ready_update [OF r q(1,2) hq])
  let ?n1 = "?t\<lparr>betting := (betting ?t)\<lparr>currentActorIndex := 1 - ?i\<rparr>\<rparr>"
  have settled: "allPlayersSettledToHighest ?n1"
    using d ps zero q(1,4) by (auto simp: allPlayersSettledToHighest_def)
  have start: "startingIndex (betting s) = ?i" using assms by (simp add: streetOpen_def)
  have ne: "1 - ?i \<noteq> ?i" using d by auto
  have "\<not> bettingRoundShouldEnd ?n1 (1 - ?i)"
    using ne d zero start by (auto simp: bettingRoundShouldEnd_def Let_def)
  then have fin: "finishAction ?t ?i = Some ?n1"
    by (simp add: headsUp_finishAction [OF rt i] Let_def)
  have "streetOpen ph True ?n1"
    using assms rt d ps zero q(4) by (auto simp: streetOpen_def headsUpReady_def)
  with st fin show ?thesis by simp
qed

lemma step_second:
  assumes "streetOpen ph True s"
    and nx: "ph = Flop \<and> ph' = Turn \<or> ph = Turn \<and> ph' = River"
  shows "\<exists>s'. passiveStep s = Some s' \<and> streetOpen ph' False s'"
proof -
  have r: "headsUpReady s" using assms by (simp add: streetOpen_def)
  have d: "dealerIndex s = 0 \<or> dealerIndex s = 1" using r by (simp add: headsUpReady_def)
  let ?i = "dealerIndex s"
  obtain p0 p1 where ps: "players s = [p0, p1]"
    using headsUp_two [OF r] by blast
  have zero: "highestBetThisRound (betting s) = 0" "currentBet p0 = 0" "currentBet p1 = 0"
    using assms ps by (simp_all add: streetOpen_def)
  have pos: "0 < stack p0" "0 < stack p1" "length (holeCards p0) = 2" "length (holeCards p1) = 2"
    "None \<notin> set (holeCards p0)" "None \<notin> set (holeCards p1)"
    using r ps by (simp_all add: headsUpReady_def)
  have actor: "currentActorIndex (betting s) = ?i" using assms by (simp add: streetOpen_def)
  have cb: "currentBet (players s ! nat ?i) \<le> highestBetThisRound (betting s)"
    and en: "highestBetThisRound (betting s) - currentBet (players s ! nat ?i) < stack (players s ! nat ?i)"
    using d ps zero pos by auto
  from passive_action [OF r d actor cb en] obtain q where
    st: "passiveStep s = finishAction (s\<lparr>betting := (betting s)\<lparr>actedSinceLastFullRaise :=
                                 insert ?i (actedSinceLastFullRaise (betting s)),
                               hasActedThisRound := True\<rparr>,
                            players := (players s)[nat ?i := q]\<rparr>) ?i"
    and q: "status q = Active" "0 < stack q" "holeCards q = holeCards (players s ! nat ?i)"
       "currentBet q = highestBetThisRound (betting s)" by blast
  let ?t = "s\<lparr>betting := (betting s)\<lparr>actedSinceLastFullRaise :=
                                 insert ?i (actedSinceLastFullRaise (betting s)),
                               hasActedThisRound := True\<rparr>,
                            players := (players s)[nat ?i := q]\<rparr>"
  have hq: "length (holeCards q) = 2" "None \<notin> set (holeCards q)"
    using q(3) d ps pos by auto
  have rt: "headsUpReady ?t" by (rule ready_update [OF r q(1,2) hq])
  let ?n1 = "?t\<lparr>betting := (betting ?t)\<lparr>currentActorIndex := 1 - ?i\<rparr>\<rparr>"
  have rn: "headsUpReady ?n1" using rt by (simp add: headsUpReady_def)
  have settled: "allPlayersSettledToHighest ?n1"
    using d ps zero q(1,4) by (auto simp: allPlayersSettledToHighest_def)
  have start: "startingIndex (betting s) = 1 - ?i" using assms by (simp add: streetOpen_def)
  have "bettingRoundShouldEnd ?n1 (1 - ?i)"
    using d zero start settled by (auto simp: bettingRoundShouldEnd_def Let_def)
  then have fin: "finishAction ?t ?i =
      (case advanceStreet ?n1 of None \<Rightarrow> None
       | Some (advanced, next2) \<Rightarrow> if \<not> advanced then resolveHand next2 else Some next2)"
    by (simp add: headsUp_finishAction [OF rt d] Let_def)
  have phs: "phase ?n1 = Flop \<and> ph' = Turn \<and> (1::nat) = 1 \<or> phase ?n1 = Turn \<and> ph' = River \<and> (1::nat) = 1"
    using assms nx by (auto simp: streetOpen_def)
  then have ph3: "phase ?n1 = Preflop \<and> ph' = Flop \<and> (1::nat) = 3 \<or> phase ?n1 = Flop \<and> ph' = Turn \<and> (1::nat) = 1
             \<or> phase ?n1 = Turn \<and> ph' = River \<and> (1::nat) = 1" by blast
  have len: "length (communityCards ?n1) = fst (cardsFor (phase ?n1))" "snd (cardsFor (phase ?n1)) \<le> length (deck ?n1)"
    using assms by (simp_all add: streetOpen_def)
  from advanceStreet_headsUp [OF rn ph3 len] obtain s' where
    "advanceStreet ?n1 = Some (True, s')" "streetOpen ph' False s'" by blast
  with st fin show ?thesis by simp
qed

lemma step_river:
  assumes "streetOpen River True s"
  shows "\<exists>s'. passiveStep s = Some s' \<and> phase s' = Showdown \<and> handOver s'
             \<and> length (communityCards s') = 5"
proof -
  have r: "headsUpReady s" using assms by (simp add: streetOpen_def)
  have d: "dealerIndex s = 0 \<or> dealerIndex s = 1" using r by (simp add: headsUpReady_def)
  let ?i = "dealerIndex s"
  obtain p0 p1 where ps: "players s = [p0, p1]"
    using headsUp_two [OF r] by blast
  have zero: "highestBetThisRound (betting s) = 0" "currentBet p0 = 0" "currentBet p1 = 0"
    using assms ps by (simp_all add: streetOpen_def)
  have pos: "0 < stack p0" "0 < stack p1" "length (holeCards p0) = 2" "length (holeCards p1) = 2"
    "None \<notin> set (holeCards p0)" "None \<notin> set (holeCards p1)"
    using r ps by (simp_all add: headsUpReady_def)
  have actor: "currentActorIndex (betting s) = ?i" using assms by (simp add: streetOpen_def)
  have cb: "currentBet (players s ! nat ?i) \<le> highestBetThisRound (betting s)"
    and en: "highestBetThisRound (betting s) - currentBet (players s ! nat ?i) < stack (players s ! nat ?i)"
    using d ps zero pos by auto
  from passive_action [OF r d actor cb en] obtain q where
    st: "passiveStep s = finishAction (s\<lparr>betting := (betting s)\<lparr>actedSinceLastFullRaise :=
                                 insert ?i (actedSinceLastFullRaise (betting s)),
                               hasActedThisRound := True\<rparr>,
                            players := (players s)[nat ?i := q]\<rparr>) ?i"
    and q: "status q = Active" "0 < stack q" "holeCards q = holeCards (players s ! nat ?i)"
       "currentBet q = highestBetThisRound (betting s)" by blast
  let ?t = "s\<lparr>betting := (betting s)\<lparr>actedSinceLastFullRaise :=
                                 insert ?i (actedSinceLastFullRaise (betting s)),
                               hasActedThisRound := True\<rparr>,
                            players := (players s)[nat ?i := q]\<rparr>"
  have hq: "length (holeCards q) = 2" "None \<notin> set (holeCards q)"
    using q(3) d ps pos by auto
  have rt: "headsUpReady ?t" by (rule ready_update [OF r q(1,2) hq])
  let ?n1 = "?t\<lparr>betting := (betting ?t)\<lparr>currentActorIndex := 1 - ?i\<rparr>\<rparr>"
  have rn: "headsUpReady ?n1" using rt by (simp add: headsUpReady_def)
  have settled: "allPlayersSettledToHighest ?n1"
    using d ps zero q(1,4) by (auto simp: allPlayersSettledToHighest_def)
  have start: "startingIndex (betting s) = 1 - ?i" using assms by (simp add: streetOpen_def)
  have "bettingRoundShouldEnd ?n1 (1 - ?i)"
    using d zero start settled by (auto simp: bettingRoundShouldEnd_def Let_def)
  moreover have "advanceStreet ?n1 = Some (False, ?n1)"
    using assms by (simp add: advanceStreet_def streetOpen_def)
  ultimately have fin: "finishAction ?t ?i = resolveHand ?n1"
    by (simp add: headsUp_finishAction [OF rt d] Let_def)
  have a: "\<forall>p\<in>set (players ?n1). status p \<noteq> Folded \<and> 2 \<le> length (holeCards p) \<and> None \<notin> set (holeCards p)"
    using rn by (auto simp: headsUpReady_def)
  have b: "None \<notin> set (communityCards ?n1)" "players ?n1 \<noteq> []" "-1 \<le> dealerIndex ?n1"
    using rn d by (auto simp: headsUpReady_def)
  from resolveHand_defined [OF a b] obtain s' where
    "resolveHand ?n1 = Some s'" "phase s' = Showdown" "handOver s'"
    "communityCards s' = communityCards ?n1" by blast
  moreover have "length (communityCards ?n1) = 5" using assms by (simp add: streetOpen_def)
  ultimately show ?thesis using st fin by simp
qed

lemma step_preflop:
  assumes "preflopOpen s"
  shows "\<exists>s'. passiveStep s = Some s' \<and> streetOpen Flop False s'"
proof -
  have r: "headsUpReady s" using assms by (simp add: preflopOpen_def)
  have d: "dealerIndex s = 0 \<or> dealerIndex s = 1" using r by (simp add: headsUpReady_def)
  let ?i = "1 - dealerIndex s"
  have i: "?i = 0 \<or> ?i = 1" using d by auto
  obtain p0 p1 where ps: "players s = [p0, p1]"
    using headsUp_two [OF r] by blast
  have pos: "0 < stack p0" "0 < stack p1" "length (holeCards p0) = 2" "length (holeCards p1) = 2"
    "None \<notin> set (holeCards p0)" "None \<notin> set (holeCards p1)"
    using r ps by (simp_all add: headsUpReady_def)
  have actor: "currentActorIndex (betting s) = ?i" using assms by (simp add: preflopOpen_def)
  have cb: "currentBet (players s ! nat ?i) \<le> highestBetThisRound (betting s)"
    and en: "highestBetThisRound (betting s) - currentBet (players s ! nat ?i) < stack (players s ! nat ?i)"
    and bbs: "currentBet (players s ! nat (dealerIndex s)) = highestBetThisRound (betting s)"
    and hp: "0 < highestBetThisRound (betting s)"
    using assms by (simp_all add: preflopOpen_def)
  from passive_action [OF r i actor cb en] obtain q where
    st: "passiveStep s = finishAction (s\<lparr>betting := (betting s)\<lparr>actedSinceLastFullRaise :=
                                 insert ?i (actedSinceLastFullRaise (betting s)),
                               hasActedThisRound := True\<rparr>,
                            players := (players s)[nat ?i := q]\<rparr>) ?i"
    and q: "status q = Active" "0 < stack q" "holeCards q = holeCards (players s ! nat ?i)"
       "currentBet q = highestBetThisRound (betting s)" by blast
  let ?t = "s\<lparr>betting := (betting s)\<lparr>actedSinceLastFullRaise :=
                                 insert ?i (actedSinceLastFullRaise (betting s)),
                               hasActedThisRound := True\<rparr>,
                            players := (players s)[nat ?i := q]\<rparr>"
  have hq: "length (holeCards q) = 2" "None \<notin> set (holeCards q)"
    using q(3) d ps pos by auto
  have rt: "headsUpReady ?t" by (rule ready_update [OF r q(1,2) hq])
  let ?n1 = "?t\<lparr>betting := (betting ?t)\<lparr>currentActorIndex := 1 - ?i\<rparr>\<rparr>"
  have rn: "headsUpReady ?n1" using rt by (simp add: headsUpReady_def)
  have settled: "allPlayersSettledToHighest ?n1"
    using d ps bbs q(1,4) by (auto simp: allPlayersSettledToHighest_def)
  have reop: "lastReopenerIndex (betting s) = dealerIndex s" using assms by (simp add: preflopOpen_def)
  have "bettingRoundShouldEnd ?n1 (1 - ?i)"
    using d hp reop settled by (auto simp: bettingRoundShouldEnd_def Let_def)
  then have fin: "finishAction ?t ?i =
      (case advanceStreet ?n1 of None \<Rightarrow> None
       | Some (advanced, next2) \<Rightarrow> if \<not> advanced then resolveHand next2 else Some next2)"
    by (simp add: headsUp_finishAction [OF rt i] Let_def)
  have ph3: "phase ?n1 = Preflop \<and> Flop = Flop \<and> (3::nat) = 3 \<or> phase ?n1 = Flop \<and> Flop = Turn \<and> (3::nat) = 1
             \<or> phase ?n1 = Turn \<and> Flop = River \<and> (3::nat) = 1"
    using assms by (simp add: preflopOpen_def)
  have len: "length (communityCards ?n1) = fst (cardsFor (phase ?n1))" "snd (cardsFor (phase ?n1)) \<le> length (deck ?n1)"
    using assms by (simp_all add: preflopOpen_def)
  from advanceStreet_headsUp [OF rn ph3 len] obtain s' where
    "advanceStreet ?n1 = Some (True, s')" "streetOpen Flop False s'" by blast
  with st fin show ?thesis by simp
qed

subsection \<open>The start of a heads-up hand\<close>

lemma upt_0_2: "[0..<2] = [0, 1]" by (simp add: upt_rec)

lemma upt_1_3: "[1..<3] = [1, 2]" by (simp add: upt_rec)

lemma list_of_four: "length ys = Suc (Suc (Suc (Suc 0))) \<Longrightarrow> \<exists>a b c d. ys = [a, b, c, d]"
  by (auto simp: length_Suc_conv)

lemma last_four:
  assumes "4 \<le> length xs"
  shows "\<exists>rest a b c d. xs = rest @ [a, b, c, d] \<and> length rest = length xs - 4"
proof -
  let ?r = "take (length xs - 4) xs" and ?t = "drop (length xs - 4) xs"
  have "length ?t = Suc (Suc (Suc (Suc 0)))" using assms by simp
  from list_of_four [OF this] obtain a b c d where "?t = [a, b, c, d]" by blast
  then have "xs = ?r @ [a, b, c, d]" by (metis append_take_drop_id)
  moreover have "length ?r = length xs - 4" by simp
  ultimately show ?thesis by blast
qed

lemma commitChips_partial:
  assumes "0 \<le> a" "a < stack p"
  shows "commitChips p a =
           (syncLegacyFields (p\<lparr>stack := stack p - a, currentBet := currentBet p + a,
                                totalCommitted := totalCommitted p + a\<rparr>), a)"
  using assms by (simp add: commitChips_def Let_def)

lemma startHand_headsUp:
  assumes "0 < bb" "0 \<le> sb" "sb \<le> bb" "bb < stk" "dealer = 0 \<or> dealer = 1" "12 \<le> length shuffled"
  shows "\<exists>s0. startHand (createInitialGameState (createPlayers 2 stk) sb bb dealer) shuffled = Some s0
             \<and> preflopOpen s0"
proof -
  have "4 \<le> length shuffled" using assms(6) by simp
  from last_four [OF this] obtain rest a b c d where
    xs: "shuffled = rest @ [a, b, c, d]" and lr: "length rest = length shuffled - 4" by blast
  have r8: "8 \<le> length rest" using assms(6) lr by simp
  have stk: "0 < stk" "sb < stk" "\<not> stk \<le> 0" using assms by simp_all
  from assms(5) show ?thesis
  proof
    assume "dealer = 0"
    with assms(1-4) r8 stk show ?thesis
      by (simp add: xs(1) startHand_def createInitialGameState_def createPlayers_def dealOne_def popCard_def
            resetForHand_def syncLegacyFields_def postBlind_def commitChips_partial findNextToAct_def
            nextIndexClockwise_def jsRem_def at_def canAct_def Let_def upt_0_2 upt_1_3
            preflopOpen_def headsUpReady_def butlast_append)
  next
    assume "dealer = 1"
    with assms(1-4) r8 stk show ?thesis
      by (simp add: xs(1) startHand_def createInitialGameState_def createPlayers_def dealOne_def popCard_def
            resetForHand_def syncLegacyFields_def postBlind_def commitChips_partial findNextToAct_def
            nextIndexClockwise_def jsRem_def at_def canAct_def Let_def upt_0_2 upt_1_3
            preflopOpen_def headsUpReady_def butlast_append)
  qed
qed

lemma playPassive_over: "handOver s \<Longrightarrow> playPassive n s = Some [s]"
  by (cases n) simp_all

lemma playPassive_step:
  "\<not> handOver s \<Longrightarrow> passiveStep s = Some s' \<Longrightarrow> playPassive n s' = Some tr
   \<Longrightarrow> playPassive (Suc n) s = Some (s # tr)"
  by simp

lemma streetOpen_facts:
  "streetOpen ph acted s \<Longrightarrow> \<not> handOver s \<and> phase s = ph
     \<and> length (communityCards s) = fst (cardsFor ph)"
  by (simp add: streetOpen_def headsUpReady_def)

lemma preflopOpen_facts: "preflopOpen s \<Longrightarrow> \<not> handOver s \<and> phase s = Preflop \<and> communityCards s = []"
  by (simp add: preflopOpen_def headsUpReady_def)

lemma headsUpShort_fields:
  "map (\<lambda>p. (status p, stack p, currentBet p, totalCommitted p)) (players headsUpShort)
     = [(AllIn, 0, 10, 10), (Active, 5, 5, 5)]"
  "betting headsUpShort =
       \<lparr>highestBetThisRound = 10, minRaiseAmount = 10, lastFullRaiseSize = 10,
          actedSinceLastFullRaise = {}, lastReopenerIndex = 0, startingIndex = 1,
          currentActorIndex = 1, hasActedThisRound = False\<rparr>"
  "handOver headsUpShort = False" "phase headsUpShort = Preflop" "dealerIndex headsUpShort = 0"
  "bbAmount headsUpShort = 10" "communityCards headsUpShort = []" "length (deck headsUpShort) = 48"
  by (simp_all add: headsUpShort_def start_defs upt_0_2 upt_1_3)

lemma dealCommunity_frame:
  "betting (dealCommunity s n) = betting s" "handOver (dealCommunity s n) = handOver s"
  "phase (dealCommunity s n) = phase s" "dealerIndex (dealCommunity s n) = dealerIndex s"
  "bbAmount (dealCommunity s n) = bbAmount s"
  "length (communityCards (dealCommunity s n)) = length (communityCards s) + n"
  by (induction n arbitrary: s) simp_all

lemma burnOne_frame:
  "betting (burnOne s) = betting s" "handOver (burnOne s) = handOver s"
  "phase (burnOne s) = phase s" "dealerIndex (burnOne s) = dealerIndex s"
  "bbAmount (burnOne s) = bbAmount s" "communityCards (burnOne s) = communityCards s"
  by (simp_all add: burnOne_def)

lemma passiveStep_headsUpShort:
  "map_option phase (passiveStep headsUpShort) = Some Flop"
  "map_option handOver (passiveStep headsUpShort) = Some False"
  "map_option (length \<circ> communityCards) (passiveStep headsUpShort) = Some 3"
  "map_option (map status \<circ> players) (passiveStep headsUpShort) = Some [AllIn, AllIn]"
  "map_option (currentActorIndex \<circ> betting) (passiveStep headsUpShort) = Some (-1)"
proof -
  obtain p0 p1 where ps: "players headsUpShort = [p0, p1]"
    and "status p0 = AllIn" "stack p0 = 0" "currentBet p0 = 10" "totalCommitted p0 = 10"
    and "status p1 = Active" "stack p1 = 5" "currentBet p1 = 5" "totalCommitted p1 = 5"
    using headsUpShort_fields(1) by auto
  then have "\<exists>s'. passiveStep headsUpShort = Some s' \<and> phase s' = Flop \<and> \<not> handOver s'
       \<and> length (communityCards s') = 3 \<and> map status (players s') = [AllIn, AllIn]
       \<and> currentActorIndex (betting s') = -1"
    by (simp add: passiveStep_def action_defs advanceStreet_def resetBetsForNextStreet_def
          headsUpShort_fields dealCommunity_frame burnOne_frame)
  then show "map_option phase (passiveStep headsUpShort) = Some Flop"
    "map_option handOver (passiveStep headsUpShort) = Some False"
    "map_option (length \<circ> communityCards) (passiveStep headsUpShort) = Some 3"
    "map_option (map status \<circ> players) (passiveStep headsUpShort) = Some [AllIn, AllIn]"
    "map_option (currentActorIndex \<circ> betting) (passiveStep headsUpShort) = Some (-1)"
    by auto
qed

subsection \<open>Equal stacks of one big blind\<close>

lemma startHand_headsUpShort:
  "startHand (createInitialGameState (createPlayers 2 10) 5 10 0) createDeck = Some headsUpShort"
proof -
  have "startHand (createInitialGameState (createPlayers 2 10) 5 10 0) createDeck \<noteq> None"
    by (simp add: start_defs upt_0_2 upt_1_3)
  then show ?thesis by (auto simp: headsUpShort_def)
qed

lemma passiveStep_stacks:
  "map_option (map stack \<circ> players) (passiveStep headsUpShort) = Some [0, 0]"
proof -
  obtain p0 p1 where ps: "players headsUpShort = [p0, p1]"
    and "status p0 = AllIn" "stack p0 = 0" "currentBet p0 = 10" "totalCommitted p0 = 10"
    and "status p1 = Active" "stack p1 = 5" "currentBet p1 = 5" "totalCommitted p1 = 5"
    using headsUpShort_fields(1) by auto
  then have "\<exists>s'. passiveStep headsUpShort = Some s' \<and> map stack (players s') = [0, 0]"
    by (simp add: passiveStep_def action_defs advanceStreet_def resetBetsForNextStreet_def
          headsUpShort_fields dealCommunity_frame burnOne_frame)
  then show ?thesis by auto
qed

lemma stalledHeadsUp_fields:
  "passiveStep headsUpShort = Some stalledHeadsUp"
  "phase stalledHeadsUp = Flop" "handOver stalledHeadsUp = False"
  "length (communityCards stalledHeadsUp) = 3"
  "map status (players stalledHeadsUp) = [AllIn, AllIn]"
  "map stack (players stalledHeadsUp) = [0, 0]"
  "currentActorIndex (betting stalledHeadsUp) = -1"
  using passiveStep_headsUpShort passiveStep_stacks by (auto simp: stalledHeadsUp_def)

lemma stalled_no_action: "applyAction stalledHeadsUp i act amt = Some stalledHeadsUp"
proof -
  obtain p0 p1 where ps: "players stalledHeadsUp = [p0, p1]" "status p0 = AllIn" "status p1 = AllIn"
    using stalledHeadsUp_fields(5) by auto
  have "at (players stalledHeadsUp) i = None \<or> (\<exists>p. at (players stalledHeadsUp) i = Some p \<and> \<not> canAct p)"
  proof (cases "i = 0 \<or> i = 1")
    case True
    then show ?thesis using ps by (auto simp: at_def canAct_def)
  next
    case False
    then show ?thesis using ps by (auto simp: at_def)
  qed
  then show ?thesis by (auto simp: applyAction_def)
qed

subsection \<open>A table where a short all-in closes the betting\<close>

lemma unevenHand_fields:
  "map (\<lambda>p. (status p, stack p, currentBet p)) (players unevenHand)
     = [(Active, 100, 0), (Active, 90, 10), (Active, 100, 20)]"
  "betting unevenHand =
       \<lparr>highestBetThisRound = 20, minRaiseAmount = 20, lastFullRaiseSize = 20,
          actedSinceLastFullRaise = {}, lastReopenerIndex = 2, startingIndex = 0,
          currentActorIndex = 0, hasActedThisRound = False\<rparr>"
  "handOver unevenHand = False" "phase unevenHand = Preflop" "dealerIndex unevenHand = 0"
  "bbAmount unevenHand = 20" "communityCards unevenHand = []" "length (deck unevenHand) = 46"
  by (simp_all add: unevenHand_def unevenTable_def start_defs upt_0_3 upt_1_4)

lemma startHand_unevenTable: "startHand unevenTable createDeck = Some unevenHand"
proof -
  have "startHand unevenTable createDeck \<noteq> None"
    by (simp add: unevenTable_def start_defs upt_0_3 upt_1_4)
  then show ?thesis by (auto simp: unevenHand_def)
qed

lemma applyAction_unevenHand:
  "map_option (\<lambda>s. map (\<lambda>p. (status p, stack p, currentBet p)) (players s))
      (applyAction unevenHand 0 ALL_IN 0)
     = Some [(AllIn, 0, 100), (Active, 90, 10), (Active, 100, 20)]"
  "map_option betting (applyAction unevenHand 0 ALL_IN 0) =
     Some \<lparr>highestBetThisRound = 100, minRaiseAmount = 80, lastFullRaiseSize = 80,
         actedSinceLastFullRaise = {0}, lastReopenerIndex = 0, startingIndex = 0,
         currentActorIndex = 1, hasActedThisRound = True\<rparr>"
  "map_option (\<lambda>s. (handOver s, phase s, bbAmount s, communityCards s, length (deck s), dealerIndex s))
      (applyAction unevenHand 0 ALL_IN 0) = Some (False, Preflop, 20, [], 46, 0)"
proof -
  obtain p0 p1 p2 where ps: "players unevenHand = [p0, p1, p2]"
    and "status p0 = Active" "stack p0 = 100" "currentBet p0 = 0"
    and "status p1 = Active" "stack p1 = 90" "currentBet p1 = 10"
    and "status p2 = Active" "stack p2 = 100" "currentBet p2 = 20"
    using unevenHand_fields(1) by auto
  then show
  "map_option (\<lambda>s. map (\<lambda>p. (status p, stack p, currentBet p)) (players s))
      (applyAction unevenHand 0 ALL_IN 0)
     = Some [(AllIn, 0, 100), (Active, 90, 10), (Active, 100, 20)]"
  "map_option betting (applyAction unevenHand 0 ALL_IN 0) =
     Some \<lparr>highestBetThisRound = 100, minRaiseAmount = 80, lastFullRaiseSize = 80,
         actedSinceLastFullRaise = {0}, lastReopenerIndex = 0, startingIndex = 0,
         currentActorIndex = 1, hasActedThisRound = True\<rparr>"
  "map_option (\<lambda>s. (handOver s, phase s, bbAmount s, communityCards s, length (deck s), dealerIndex s))
      (applyAction unevenHand 0 ALL_IN 0) = Some (False, Preflop, 20, [], 46, 0)"
    by (simp_all add: action_defs unevenHand_fields)
qed

lemma afterOpenAllIn_fields:
  "map (\<lambda>p. (status p, stack p, currentBet p)) (players afterOpenAllIn)
     = [(AllIn, 0, 100), (Active, 90, 10), (Active, 100, 20)]"
  "betting afterOpenAllIn =
     \<lparr>highestBetThisRound = 100, minRaiseAmount = 80, lastFullRaiseSize = 80,
         actedSinceLastFullRaise = {0}, lastReopenerIndex = 0, startingIndex = 0,
         currentActorIndex = 1, hasActedThisRound = True\<rparr>"
  "(handOver afterOpenAllIn, phase afterOpenAllIn, bbAmount afterOpenAllIn,
    communityCards afterOpenAllIn, length (deck afterOpenAllIn), dealerIndex afterOpenAllIn)
     = (False, Preflop, 20, [], 46, 0)"
  unfolding afterOpenAllIn_def
  by (rule the_map_option [OF applyAction_unevenHand(1)],
      rule the_map_option [OF applyAction_unevenHand(2)],
      rule the_map_option [OF applyAction_unevenHand(3)])

lemma applyAction_afterOpenAllIn:
  "map_option (\<lambda>s. map (\<lambda>p. (status p, stack p, currentBet p)) (players s))
      (applyAction afterOpenAllIn 1 CALL 0)
     = Some [(AllIn, 0, 100), (AllIn, 0, 100), (Active, 100, 20)]"
  "map_option betting (applyAction afterOpenAllIn 1 CALL 0) =
     Some \<lparr>highestBetThisRound = 100, minRaiseAmount = 80, lastFullRaiseSize = 80,
         actedSinceLastFullRaise = {0, 1}, lastReopenerIndex = 0, startingIndex = 0,
         currentActorIndex = 2, hasActedThisRound = True\<rparr>"
  "map_option (\<lambda>s. (handOver s, phase s, bbAmount s, communityCards s, length (deck s), dealerIndex s))
      (applyAction afterOpenAllIn 1 CALL 0) = Some (False, Preflop, 20, [], 46, 0)"
proof -
  obtain p0 p1 p2 where ps: "players afterOpenAllIn = [p0, p1, p2]"
    and "status p0 = AllIn" "stack p0 = 0" "currentBet p0 = 100"
    and "status p1 = Active" "stack p1 = 90" "currentBet p1 = 10"
    and "status p2 = Active" "stack p2 = 100" "currentBet p2 = 20"
    using afterOpenAllIn_fields(1) by auto
  then show
  "map_option (\<lambda>s. map (\<lambda>p. (status p, stack p, currentBet p)) (players s))
      (applyAction afterOpenAllIn 1 CALL 0)
     = Some [(AllIn, 0, 100), (AllIn, 0, 100), (Active, 100, 20)]"
  "map_option betting (applyAction afterOpenAllIn 1 CALL 0) =
     Some \<lparr>highestBetThisRound = 100, minRaiseAmount = 80, lastFullRaiseSize = 80,
         actedSinceLastFullRaise = {0, 1}, lastReopenerIndex = 0, startingIndex = 0,
         currentActorIndex = 2, hasActedThisRound = True\<rparr>"
  "map_option (\<lambda>s. (handOver s, phase s, bbAmount s, communityCards s, length (deck s), dealerIndex s))
      (applyAction afterOpenAllIn 1 CALL 0) = Some (False, Preflop, 20, [], 46, 0)"
    using afterOpenAllIn_fields(3)
    by (simp_all add: action_defs afterOpenAllIn_fields(2) insert_commute)
qed

lemma facingAllIn_fields:
  "map (\<lambda>p. (status p, stack p, currentBet p)) (players facingAllIn)
     = [(AllIn, 0, 100), (AllIn, 0, 100), (Active, 100, 20)]"
  "betting facingAllIn =
     \<lparr>highestBetThisRound = 100, minRaiseAmount = 80, lastFullRaiseSize = 80,
         actedSinceLastFullRaise = {0, 1}, lastReopenerIndex = 0, startingIndex = 0,
         currentActorIndex = 2, hasActedThisRound = True\<rparr>"
  "(handOver facingAllIn, phase facingAllIn, bbAmount facingAllIn,
    communityCards facingAllIn, length (deck facingAllIn), dealerIndex facingAllIn)
     = (False, Preflop, 20, [], 46, 0)"
  unfolding facingAllIn_def
  by (rule the_map_option [OF applyAction_afterOpenAllIn(1)],
      rule the_map_option [OF applyAction_afterOpenAllIn(2)],
      rule the_map_option [OF applyAction_afterOpenAllIn(3)])

lemma applyAction_facingAllIn:
  "map_option phase (applyAction facingAllIn 2 ALL_IN 120) = Some Flop"
  "map_option handOver (applyAction facingAllIn 2 ALL_IN 120) = Some False"
  "map_option betting (applyAction facingAllIn 2 ALL_IN 120) =
     Some \<lparr>highestBetThisRound = 0, minRaiseAmount = 20, lastFullRaiseSize = 20,
         actedSinceLastFullRaise = {}, lastReopenerIndex = -1, startingIndex = -1,
         currentActorIndex = -1, hasActedThisRound = False\<rparr>"
  "map_option (map status \<circ> players) (applyAction facingAllIn 2 ALL_IN 120) = Some [AllIn, AllIn, AllIn]"
proof -
  obtain p0 p1 p2 where ps: "players facingAllIn = [p0, p1, p2]"
    and "status p0 = AllIn" "stack p0 = 0" "currentBet p0 = 100"
    and "status p1 = AllIn" "stack p1 = 0" "currentBet p1 = 100"
    and "status p2 = Active" "stack p2 = 100" "currentBet p2 = 20"
    using facingAllIn_fields(1) by auto
  then have "\<exists>s'. applyAction facingAllIn 2 ALL_IN 120 = Some s' \<and> phase s' = Flop \<and> \<not> handOver s'
       \<and> betting s' = \<lparr>highestBetThisRound = 0, minRaiseAmount = 20, lastFullRaiseSize = 20,
         actedSinceLastFullRaise = {}, lastReopenerIndex = -1, startingIndex = -1,
         currentActorIndex = -1, hasActedThisRound = False\<rparr>
       \<and> map status (players s') = [AllIn, AllIn, AllIn]"
    using facingAllIn_fields(3)
    by (simp add: action_defs advanceStreet_def resetBetsForNextStreet_def
          facingAllIn_fields(2) dealCommunity_frame burnOne_frame)
  then show "map_option phase (applyAction facingAllIn 2 ALL_IN 120) = Some Flop"
  "map_option handOver (applyAction facingAllIn 2 ALL_IN 120) = Some False"
  "map_option betting (applyAction facingAllIn 2 ALL_IN 120) =
     Some \<lparr>highestBetThisRound = 0, minRaiseAmount = 20, lastFullRaiseSize = 20,
         actedSinceLastFullRaise = {}, lastReopenerIndex = -1, startingIndex = -1,
         currentActorIndex = -1, hasActedThisRound = False\<rparr>"
  "map_option (map status \<circ> players) (applyAction facingAllIn 2 ALL_IN 120) = Some [AllIn, AllIn, AllIn]"
    by auto
qed
section \<open>Properties of the engine\<close>

text \<open>
  C2. For players whose commitments are not negative, the amounts of the pots returned by
  \<^verbatim>\<open>computeSidePots\<close> add up to the sum of all \<^verbatim>\<open>totalCommitted\<close> values, and every
  player who committed chips and has not folded is eligible for the pot at the level of
  their own commitment.
\<close>

theorem computeSidePots_partition:
  assumes nonneg: "\<forall>p\<in>set ps. 0 \<le> totalCommitted p"
  shows "sum_list (map amount (computeSidePots ps)) = sum_list (map totalCommitted ps)
       \<and> (\<forall>p\<in>set ps. 0 < totalCommitted p \<and> status p \<noteq> Folded \<longrightarrow>
            (\<exists>k<length (computeSidePots ps).
               levelsOf (contributorsOf ps) ! k = totalCommitted p
               \<and> pid p \<in> set (eligiblePlayers (computeSidePots ps ! k))))"
proof
  let ?cs = "contributorsOf ps"
  have "\<forall>l\<in>set (levelsOf ?cs). (0::int) < l"
    using contributors_committed_pos by (auto simp: levelsOf_props)
  moreover have "\<forall>c\<in>set ?cs. 0 < committed c \<longrightarrow> committed c \<in> set (levelsOf ?cs)"
    by (simp add: levelsOf_props)
  ultimately have "sum_list (map amount (potsLoop ?cs 0 (levelsOf ?cs))) = (\<Sum>c\<leftarrow>?cs. max 0 (committed c - 0))"
    by (intro potsLoop_sum levelsOf_props)
  then show "sum_list (map amount (computeSidePots ps)) = sum_list (map totalCommitted ps)"
    using contributors_sum [OF nonneg] by (simp add: computeSidePots_unfiltered)
next
  let ?cs = "contributorsOf ps"
  let ?lv = "levelsOf ?cs"
  show "\<forall>p\<in>set ps. 0 < totalCommitted p \<and> status p \<noteq> Folded \<longrightarrow>
            (\<exists>k<length (computeSidePots ps). ?lv ! k = totalCommitted p
               \<and> pid p \<in> set (eligiblePlayers (computeSidePots ps ! k)))"
  proof (intro ballI impI)
    fix p assume p: "p \<in> set ps" and h: "0 < totalCommitted p \<and> status p \<noteq> Folded"
    let ?c = "\<lparr>cid = pid p, committed = totalCommitted p, cfolded = (status p = Folded)\<rparr>"
    have cin: "?c \<in> set ?cs" using p h by (auto simp: contributorsOf_def)
    then have "totalCommitted p \<in> set ?lv" by (force simp: levelsOf_props)
    then obtain k where k: "k < length ?lv" "?lv ! k = totalCommitted p"
      by (auto simp: in_set_conv_nth)
    have "pid p \<in> set (eligiblePlayers (potsLoop ?cs 0 ?lv ! k))"
      using cin h k by (force simp: potsLoop_nth)
    with k show "\<exists>k<length (computeSidePots ps). ?lv ! k = totalCommitted p
               \<and> pid p \<in> set (eligiblePlayers (computeSidePots ps ! k))"
      by (auto simp: computeSidePots_unfiltered potsLoop_length)
  qed
qed

theorem computeSidePots_partition_witness:
  "sum_list (map amount (computeSidePots testSidePotsPlayers)) = 1000
   \<and> (\<exists>k<length (computeSidePots testSidePotsPlayers).
         levelsOf (contributorsOf testSidePotsPlayers) ! k = 200
         \<and> 1 \<in> set (eligiblePlayers (computeSidePots testSidePotsPlayers ! k)))"
proof -
  have nonneg: "\<forall>p\<in>set testSidePotsPlayers. 0 \<le> totalCommitted p"
    by (simp add: testSidePotsPlayers_def createPlayers_def Let_def upt_0_4)
  have mem: "testSidePotsPlayers ! 1 \<in> set testSidePotsPlayers"
    by (simp add: testSidePotsPlayers_def Let_def)
  have p1: "totalCommitted (testSidePotsPlayers ! 1) = 200" "status (testSidePotsPlayers ! 1) \<noteq> Folded"
    "pid (testSidePotsPlayers ! 1) = 1"
    by (simp_all add: testSidePotsPlayers_def createPlayers_def Let_def upt_0_4)
  have total: "sum_list (map totalCommitted testSidePotsPlayers) = 1000"
    by (simp add: testSidePotsPlayers_def createPlayers_def Let_def upt_0_4)
  from computeSidePots_partition [OF nonneg] mem p1 total show ?thesis
    by (metis zero_less_numeral)
qed


text \<open>
  C5 (as the code has it). With fewer than five cards \<^verbatim>\<open>evaluateHand\<close> returns the score
  \<^verbatim>\<open>{ tier: 0, kickers: [], name: 'Waiting...' }\<close>. Its tier is the tier of High Card, the
  lowest tier, and not below it: under \<^verbatim>\<open>compareHandsResults\<close> it loses to every
  evaluated five-card hand of tier 1 or more and ties with every High Card hand.
\<close>

theorem evaluateHand_incomplete:
  assumes "length (hole @ community) < 5" and "evaluate5CardHand cs = Some h"
  shows "evaluateHand hole community = Some waiting
       \<and> tier waiting \<le> tier h
       \<and> compareHandsResults waiting h = (if tier h = 0 then 0 else -1)
       \<and> compareHandsResults h waiting = (if tier h = 0 then 0 else 1)"
proof -
  obtain ds where "h = evaluate5Defined ds"
    using assms(2) by (auto simp: evaluate5CardHand_def)
  then have "0 \<le> tier h" by (simp add: tier_nonneg)
  then show ?thesis
    using assms(1) by (auto simp: evaluateHand_def waiting_def compareHandsResults_def compareKickers_Nil)
qed

theorem evaluateHand_incomplete_witness:
  "evaluateHand [Some \<lparr>rank = RA, suit = S\<rparr>, Some \<lparr>rank = RK, suit = H\<rparr>] [] = Some waiting
   \<and> evaluate5CardHand (map Some pairOfAces) = Some \<lparr>tier = 1, kickers = [14, 7, 4, 2], name = ''Pair''\<rparr>
   \<and> compareHandsResults waiting \<lparr>tier = 1, kickers = [14, 7, 4, 2], name = ''Pair''\<rparr> = -1"
proof -
  have 1: "length ([Some \<lparr>rank = RA, suit = S\<rparr>, Some \<lparr>rank = RK, suit = H\<rparr>] @ []) < 5" by simp
  have 2: "evaluate5CardHand (map Some pairOfAces) = Some \<lparr>tier = 1, kickers = [14, 7, 4, 2], name = ''Pair''\<rparr>"
    by (simp add: evaluate5CardHand_Some eval_pairOfAces)
  from evaluateHand_incomplete [OF 1 2] 2 show ?thesis by simp
qed

text \<open>
  C5 as stated fails: the score for two hole cards has the same tier as a king-high
  five-card hand, and the comparison of the two is a tie in both directions.
\<close>

theorem evaluateHand_incomplete_ties_high_card:
  "evaluateHand [Some \<lparr>rank = RA, suit = S\<rparr>, Some \<lparr>rank = RK, suit = H\<rparr>] [] = Some waiting
   \<and> evaluate5CardHand (map Some kingHigh) = Some \<lparr>tier = 0, kickers = [13, 9, 7, 4, 2], name = ''High Card''\<rparr>
   \<and> tier waiting = tier \<lparr>tier = 0, kickers = [13, 9, 7, 4, 2], name = ''High Card''\<rparr>
   \<and> compareHandsResults waiting \<lparr>tier = 0, kickers = [13, 9, 7, 4, 2], name = ''High Card''\<rparr> = 0
   \<and> compareHandsResults \<lparr>tier = 0, kickers = [13, 9, 7, 4, 2], name = ''High Card''\<rparr> waiting = 0"
  by (simp add: evaluate5CardHand_Some eval_kingHigh evaluateHand_def waiting_def compareHandsResults_def)

text \<open>
  C6 (as the code has it). Every five-card hand with the ranks A, 2, 3, 4, 5 gets the kickers
  \<open>[5, 4, 3, 2, 1]\<close>; it is a Straight (tier 4) unless its five cards share one suit, when
  it is a Straight Flush (tier 8). It beats every High Card hand. It loses to a hand with
  the ranks 2, 3, 4, 5, 6, except that a wheel of one suit beats a six-high straight of
  mixed suits.
\<close>

theorem wheel_straight:
  assumes "isWheel cs" and "evaluate5CardHand hc = Some h" and "tier h = 0" and "isSixHigh six"
  shows "\<exists>w s. evaluate5CardHand (map Some cs) = Some w
             \<and> evaluate5CardHand (map Some six) = Some s
             \<and> kickers w = [5, 4, 3, 2, 1]
             \<and> tier w = (if sameSuit cs then 8 else 4)
             \<and> name w = (if sameSuit cs then ''Straight Flush'' else ''Straight'')
             \<and> compareHandsResults w h = 1
             \<and> compareHandsResults w s = (if sameSuit cs \<and> \<not> sameSuit six then 1 else -1)"
  using assms(3)
  by (simp add: evaluate5CardHand_Some wheel_eval [OF assms(1)] sixhigh_eval [OF assms(4)]
        compareHandsResults_def)

theorem wheel_straight_witness:
  "\<exists>w s. evaluate5CardHand (map Some wheelMixed) = Some w
         \<and> evaluate5CardHand (map Some sixHighMixed) = Some s
         \<and> kickers w = [5, 4, 3, 2, 1] \<and> tier w = 4 \<and> name w = ''Straight''
         \<and> compareHandsResults w (evaluate5Defined kingHigh) = 1
         \<and> compareHandsResults w s = -1"
proof -
  have 2: "evaluate5CardHand (map Some kingHigh) = Some (evaluate5Defined kingHigh)"
    by (rule evaluate5CardHand_Some)
  have 3: "tier (evaluate5Defined kingHigh) = 0" by (simp add: eval_kingHigh)
  from wheel_straight [OF isWheel_examples(1) 2 3 isSixHigh_example(1)]
  show ?thesis
    by (simp add: isWheel_examples isSixHigh_example)
qed

text \<open>
  C6 as stated fails for a wheel of one suit: it is classified as a Straight Flush, and it
  beats the six-high straight of mixed suits.
\<close>

theorem wheel_of_one_suit_is_straight_flush:
  "isWheel wheelHearts
   \<and> evaluate5CardHand (map Some wheelHearts) = Some \<lparr>tier = 8, kickers = [5, 4, 3, 2, 1], name = ''Straight Flush''\<rparr>
   \<and> isSixHigh sixHighMixed
   \<and> evaluate5CardHand (map Some sixHighMixed) = Some \<lparr>tier = 4, kickers = [6, 5, 4, 3, 2], name = ''Straight''\<rparr>
   \<and> compareHandsResults \<lparr>tier = 8, kickers = [5, 4, 3, 2, 1], name = ''Straight Flush''\<rparr>
        \<lparr>tier = 4, kickers = [6, 5, 4, 3, 2], name = ''Straight''\<rparr> = 1"
  by (simp add: evaluate5CardHand_Some wheel_eval sixhigh_eval isWheel_examples isSixHigh_example
        compareHandsResults_def)

text \<open>
  C10. When the hand is over, or the seat does not exist, or its player is folded, all-in
  or eliminated or has no chips, \<^verbatim>\<open>applyAction\<close> returns the state it was given, for
  every action kind and amount.
\<close>

theorem applyAction_frame:
  assumes "handOver s \<or> at (players s) i = None
           \<or> (\<exists>p. at (players s) i = Some p
                 \<and> (status p = Folded \<or> status p = AllIn \<or> status p = Eliminated \<or> stack p \<le> 0))"
  shows "applyAction s i act amt = Some s"
  using assms by (auto simp: applyAction_def canAct_def)

theorem applyAction_frame_witness:
  "applyAction afterShortAllIn 2 RAISE 500 = Some afterShortAllIn
   \<and> applyAction threeHanded 3 FOLD 0 = Some threeHanded
   \<and> applyAction (threeHanded\<lparr>handOver := True\<rparr>) 0 FOLD 0 = Some (threeHanded\<lparr>handOver := True\<rparr>)"
proof -
  obtain p0 p1 p2 where ps: "players afterShortAllIn = [p0, p1, p2]" and st: "status p2 = AllIn"
    using afterShortAllIn_fields(3) by auto
  have 1: "handOver afterShortAllIn \<or> at (players afterShortAllIn) 2 = None
           \<or> (\<exists>p. at (players afterShortAllIn) 2 = Some p
                 \<and> (status p = Folded \<or> status p = AllIn \<or> status p = Eliminated \<or> stack p \<le> 0))"
    using st by (simp add: ps at_def)
  have 2: "handOver threeHanded \<or> at (players threeHanded) 3 = None
           \<or> (\<exists>p. at (players threeHanded) 3 = Some p
                 \<and> (status p = Folded \<or> status p = AllIn \<or> status p = Eliminated \<or> stack p \<le> 0))"
    by (simp add: threeHanded_fields at_def)
  show ?thesis
    using applyAction_frame [OF 1, of RAISE 500] applyAction_frame [OF 2, of FOLD 0]
      applyAction_frame [of "threeHanded\<lparr>handOver := True\<rparr>" 0 FOLD 0]
    by simp
qed




text \<open>
  C3 (as the code has it). With a highest bet of 100 and a last full raise of 80, an
  all-in by a seat whose chips reach a total of 120 sets the highest bet to 120, keeps
  every seat that had acted marked as acted, and leaves \<^verbatim>\<open>lastFullRaiseSize\<close> and
  \<^verbatim>\<open>minRaiseAmount\<close> as they were, provided that some other seat is still able to act and
  does not have 120 in front of it, so that the betting round goes on.
\<close>

theorem short_all_in_does_not_reopen:
  assumes "\<not> handOver s"
    and p: "at (players s) i = Some p" "canAct p"
    and "highestBetThisRound (betting s) = 100"
    and "lastFullRaiseSize (betting s) = 80"
    and "currentBet p + stack p = 120"
    and ab: "a \<in> actedSinceLastFullRaise (betting s)" "b \<in> actedSinceLastFullRaise (betting s)"
    and q: "c \<noteq> i" "at (players s) c = Some q" "canAct q" "currentBet q \<noteq> 120"
  shows "\<exists>s'. applyAction s i ALL_IN amt = Some s'
            \<and> highestBetThisRound (betting s') = 120
            \<and> a \<in> actedSinceLastFullRaise (betting s')
            \<and> b \<in> actedSinceLastFullRaise (betting s')
            \<and> actedSinceLastFullRaise (betting s') = insert i (actedSinceLastFullRaise (betting s))
            \<and> lastFullRaiseSize (betting s') = 80
            \<and> minRaiseAmount (betting s') = minRaiseAmount (betting s)"
proof -
  let ?next = "s\<lparr>betting := (betting s)\<lparr>actedSinceLastFullRaise := insert i (actedSinceLastFullRaise (betting s)),
                         hasActedThisRound := True\<rparr>\<rparr>"
  have ii: "0 \<le> i" "i < int (length (players s))" using p(1) by (simp_all add: at_Some_iff)
  have sp: "0 < stack p" using p(2) by (simp add: canAct_def)
  have toAdd: "120 - currentBet p = stack p" using assms(6) by arith
  have cb: "currentBet (fst (commitChips p (120 - currentBet p))) = 120"
    using commitChips_currentBet [OF sp] assms(6) by (simp add: toAdd)
  let ?p1 = "fst (commitChips p (120 - currentBet p))"
  let ?p' = "syncLegacyFields (?p1\<lparr>currentAction := (if status ?p1 = AllIn then AllInTo 120 else RaiseTo 120)\<rparr>)"
  have res: "resolveAction ?next i p ALL_IN amt 100 (max 0 (100 - currentBet p)) (getLegalActions s i)
      = Proceed (setPlayer (?next\<lparr>betting := (betting ?next)\<lparr>highestBetThisRound := 120\<rparr>\<rparr>) i ?p')"
    using assms(4-6) cb
    by (simp add: resolveAction_def Let_def)
  let ?mid = "setPlayer (?next\<lparr>betting := (betting ?next)\<lparr>highestBetThisRound := 120\<rparr>\<rparr>) i ?p'"
  have 1: "i < int (length (players ?mid))" using ii by (simp add: setPlayer_def)
  have cc: "0 \<le> c" "c < int (length (players s))" "q = players s ! nat c"
    using q(2) by (simp_all add: at_Some_iff)
  have "nat c \<noteq> nat i" using q(1) ii cc by simp
  then have 2: "at (players ?mid) c = Some q"
    using cc by (simp add: at_def setPlayer_def)
  have 3: "currentBet q \<noteq> highestBetThisRound (betting ?mid)"
    using q(4) by (simp add: setPlayer_def)
  from finishAction_unsettled [OF ii(1) 1 2 q(3) 3]
  obtain s' where s': "finishAction ?mid i = Some s'"
    "highestBetThisRound (betting s') = highestBetThisRound (betting ?mid)"
    "actedSinceLastFullRaise (betting s') = actedSinceLastFullRaise (betting ?mid)"
    "lastFullRaiseSize (betting s') = lastFullRaiseSize (betting ?mid)"
    "minRaiseAmount (betting s') = minRaiseAmount (betting ?mid)" by blast
  have "applyAction s i ALL_IN amt = Some s'"
    using assms(1,4) p res s'(1) by (simp add: applyAction_def Let_def)
  then show ?thesis
    using s'(2-5) ab assms(5) by (simp add: setPlayer_def)
qed

theorem short_all_in_does_not_reopen_witness:
  "map_option (highestBetThisRound \<circ> betting) (applyAction shortAllInGame 2 ALL_IN 120) = Some 120
   \<and> map_option (actedSinceLastFullRaise \<circ> betting) (applyAction shortAllInGame 2 ALL_IN 120) = Some {0, 1, 2}
   \<and> map_option (lastFullRaiseSize \<circ> betting) (applyAction shortAllInGame 2 ALL_IN 120) = Some 80
   \<and> map_option (minRaiseAmount \<circ> betting) (applyAction shortAllInGame 2 ALL_IN 120) = Some 80"
proof -
  have len: "length (players shortAllInGame) = 3"
    by (simp add: shortAllInGame_def threeHanded_fields Let_def)
  have p: "at (players shortAllInGame) 2 = Some (players shortAllInGame ! 2)"
    and q: "at (players shortAllInGame) 0 = Some (players shortAllInGame ! 0)"
    by (simp_all add: at_def len)
  have pq: "canAct (players shortAllInGame ! 2)" "canAct (players shortAllInGame ! 0)"
    "currentBet (players shortAllInGame ! 2) + stack (players shortAllInGame ! 2) = 120"
    "currentBet (players shortAllInGame ! 0) \<noteq> 120"
    by (simp_all add: shortAllInGame_def threeHanded_fields Let_def canAct_def)
  have b: "highestBetThisRound (betting shortAllInGame) = 100" "lastFullRaiseSize (betting shortAllInGame) = 80"
    "0 \<in> actedSinceLastFullRaise (betting shortAllInGame)" "1 \<in> actedSinceLastFullRaise (betting shortAllInGame)"
    "\<not> handOver shortAllInGame"
    by (simp_all add: shortAllInGame_fields)
  have ne: "(0::int) \<noteq> 2" by simp
  from short_all_in_does_not_reopen [OF b(5) p pq(1) b(1,2) pq(3) b(3,4) ne q pq(2,4), of 120]
  show ?thesis by (auto simp: shortAllInGame_fields)
qed

text \<open>
  C3 as stated fails when nobody is left to act. At a table with stacks of 100, 100 and
  120 and blinds of 10 and 20, seat 0 opens all-in to 100 (a full raise of 80) and seat 1
  calls with its last chips. Seat 2 then faces 100 with both other seats marked as acted
  and goes all-in to 120: the betting round ends, the flop is dealt, and the returned
  state has a highest bet of 0, nobody marked as acted, and \<^verbatim>\<open>lastFullRaiseSize\<close> and
  \<^verbatim>\<open>minRaiseAmount\<close> back at the big blind of 20. And in the state of
  \<^verbatim>\<open>testShortAllInDoesNotReopen\<close>, an all-in by seat 2 leaves the highest bet at 100 when
  the hand is over or the seat has folded.
\<close>

theorem short_all_in_ends_round:
  "map stack (players unevenTable) = [100, 100, 120]
   \<and> startHand unevenTable createDeck = Some unevenHand
   \<and> applyAction unevenHand 0 ALL_IN 0 = Some afterOpenAllIn
   \<and> applyAction afterOpenAllIn 1 CALL 0 = Some facingAllIn
   \<and> handOver facingAllIn = False
   \<and> phase facingAllIn = Preflop
   \<and> highestBetThisRound (betting facingAllIn) = 100
   \<and> lastFullRaiseSize (betting facingAllIn) = 80
   \<and> minRaiseAmount (betting facingAllIn) = 80
   \<and> actedSinceLastFullRaise (betting facingAllIn) = {0, 1}
   \<and> currentActorIndex (betting facingAllIn) = 2
   \<and> map status (players facingAllIn) = [AllIn, AllIn, Active]
   \<and> map currentBet (players facingAllIn) = [100, 100, 20]
   \<and> map stack (players facingAllIn) = [0, 0, 100]
   \<and> map_option phase (applyAction facingAllIn 2 ALL_IN 120) = Some Flop
   \<and> map_option (highestBetThisRound \<circ> betting) (applyAction facingAllIn 2 ALL_IN 120) = Some 0
   \<and> map_option (actedSinceLastFullRaise \<circ> betting) (applyAction facingAllIn 2 ALL_IN 120) = Some {}
   \<and> map_option (lastFullRaiseSize \<circ> betting) (applyAction facingAllIn 2 ALL_IN 120) = Some 20
   \<and> map_option (minRaiseAmount \<circ> betting) (applyAction facingAllIn 2 ALL_IN 120) = Some 20
   \<and> highestBetThisRound (betting shortAllInGame) = 100
   \<and> map_option (highestBetThisRound \<circ> betting)
        (applyAction (shortAllInGame\<lparr>handOver := True\<rparr>) 2 ALL_IN 120) = Some 100
   \<and> map_option (highestBetThisRound \<circ> betting)
        (applyAction (shortAllInGame\<lparr>players := (players shortAllInGame)
                         [2 := (players shortAllInGame ! 2)\<lparr>status := Folded\<rparr>]\<rparr>) 2 ALL_IN 120) = Some 100"
proof -
  have o: "map_option (highestBetThisRound \<circ> betting)
        (applyAction (shortAllInGame\<lparr>handOver := True\<rparr>) 2 ALL_IN 120) = Some 100"
    by (simp add: applyAction_def shortAllInGame_fields)
  have len: "length (players shortAllInGame) = 3"
    by (simp add: shortAllInGame_def threeHanded_fields Let_def)
  have f: "map_option (highestBetThisRound \<circ> betting)
        (applyAction (shortAllInGame\<lparr>players := (players shortAllInGame)
                         [2 := (players shortAllInGame ! 2)\<lparr>status := Folded\<rparr>]\<rparr>) 2 ALL_IN 120) = Some 100"
    by (simp add: applyAction_def shortAllInGame_fields at_def canAct_def len)
  have t: "map stack (players unevenTable) = [100, 100, 120]"
    by (simp add: unevenTable_def createInitialGameState_def createPlayers_def syncLegacyFields_def
          upt_0_3 Let_def)
  have a1: "applyAction unevenHand 0 ALL_IN 0 = Some afterOpenAllIn"
    using applyAction_unevenHand(2) by (auto simp: afterOpenAllIn_def)
  have a2: "applyAction afterOpenAllIn 1 CALL 0 = Some facingAllIn"
    using applyAction_afterOpenAllIn(2) by (auto simp: facingAllIn_def)
  obtain s' where s': "applyAction facingAllIn 2 ALL_IN 120 = Some s'"
    using applyAction_facingAllIn(1) by auto
  have b: "betting s' = \<lparr>highestBetThisRound = 0, minRaiseAmount = 20, lastFullRaiseSize = 20,
         actedSinceLastFullRaise = {}, lastReopenerIndex = -1, startingIndex = -1,
         currentActorIndex = -1, hasActedThisRound = False\<rparr>" "phase s' = Flop"
    using applyAction_facingAllIn(1,3) s' by simp_all
  obtain p0 p1 p2 where ps: "players facingAllIn = [p0, p1, p2]"
    and "status p0 = AllIn" "stack p0 = 0" "currentBet p0 = 100"
    and "status p1 = AllIn" "stack p1 = 0" "currentBet p1 = 100"
    and "status p2 = Active" "stack p2 = 100" "currentBet p2 = 20"
    using facingAllIn_fields(1) by auto
  then show ?thesis
    using t startHand_unevenTable a1 a2 facingAllIn_fields(3) s' b o f
    by (simp add: facingAllIn_fields(2) shortAllInGame_fields)
qed

text \<open>
  C4 at the state after the short all-in of the test. Seat 0 has acted since the last
  full raise and is next to act facing 120. \<^verbatim>\<open>getLegalActions\<close> denies it a raise, and a
  Raise leaves the highest bet at 120; an AllIn by the same seat raises the highest bet to
  1100 and resets the set of seats that have acted.
\<close>

theorem closed_out_seat_raises_by_all_in:
  "0 \<in> actedSinceLastFullRaise (betting afterShortAllIn)
   \<and> highestBetThisRound (betting afterShortAllIn) = 120
   \<and> currentActorIndex (betting afterShortAllIn) = 0
   \<and> \<not> canRaise (getLegalActions afterShortAllIn 0)
   \<and> map_option (highestBetThisRound \<circ> betting) (applyAction afterShortAllIn 0 RAISE 500) = Some 120
   \<and> map_option (highestBetThisRound \<circ> betting) (applyAction afterShortAllIn 0 ALL_IN 0) = Some 1100
   \<and> map_option (actedSinceLastFullRaise \<circ> betting) (applyAction afterShortAllIn 0 ALL_IN 0) = Some {0}"
proof -
  obtain p0 p1 p2 where ps: "players afterShortAllIn = [p0, p1, p2]"
    and "status p0 = Active" "stack p0 = 1000" "currentBet p0 = 100"
    and "status p1 = Active" "stack p1 = 1000" "currentBet p1 = 100"
    and "status p2 = AllIn" "stack p2 = 0" "currentBet p2 = 120"
    using afterShortAllIn_fields(3) by auto
  then show ?thesis
    by (simp add: action_defs afterShortAllIn_fields)
qed

theorem closed_out_seat_raises_by_all_in_witness:
  "map_option (highestBetThisRound \<circ> betting) (applyAction afterShortAllIn 0 ALL_IN 0) = Some 1100
   \<and> map_option (highestBetThisRound \<circ> betting) (applyAction afterShortAllIn 0 RAISE 500) = Some 120"
  using closed_out_seat_raises_by_all_in by simp

text \<open>
  C9. If no stack is negative, then no stack is negative in the state that \<^verbatim>\<open>startHand\<close>,
  \<^verbatim>\<open>applyAction\<close> or \<^verbatim>\<open>resolveHand\<close> returns. \<^verbatim>\<open>commitChips\<close> never takes more than the
  stack, and an Active player whose stack it brings to 0 is AllIn when it returns; nobody
  is Active with a stack that \<^verbatim>\<open>commitChips\<close> has brought to 0.
\<close>

theorem stacks_never_negative:
  assumes "nonNegativeStacks (players s)"
    and "startHand s shuffled = Some s' \<or> applyAction s i act amt = Some s' \<or> resolveHand s = Some s'"
  shows "nonNegativeStacks (players s')
       \<and> (0 \<le> stack p \<longrightarrow> 0 \<le> stack (fst (commitChips p a)) \<and> snd (commitChips p a) \<le> stack p)
       \<and> (stack (fst (commitChips p a)) = 0 \<longrightarrow> status (fst (commitChips p a)) \<noteq> Active)
       \<and> (status p = Active \<and> stack (fst (commitChips p a)) = 0 \<longrightarrow> status (fst (commitChips p a)) = AllIn)"
proof -
  have "nonNegativeStacks (players s')"
    using assms nonNeg_startHand nonNeg_applyAction nonNeg_resolveHand by blast
  moreover have "snd (commitChips p a) \<le> stack p"
    by (simp add: commitChips_def Let_def)
  moreover have "status p = Active \<and> stack (fst (commitChips p a)) = 0 \<longrightarrow> status (fst (commitChips p a)) = AllIn"
    by (auto simp: commitChips_def Let_def syncLegacyFields_def split: if_splits)
  ultimately show ?thesis
    using commitChips_stack [of p a] commitChips_all_in [of p a] by blast
qed

theorem stacks_never_negative_witness:
  "nonNegativeStacks (players threeHanded)
   \<and> nonNegativeStacks (players afterShortAllIn)
   \<and> nonNegativeStacks (players (the (resolveHand threeHanded)))
   \<and> status (players shortAllInGame ! 2) = Active
   \<and> stack (fst (commitChips (players shortAllInGame ! 2) 20)) = 0
   \<and> status (fst (commitChips (players shortAllInGame ! 2) 20)) = AllIn"
proof -
  let ?init = "createInitialGameState (createPlayers 3 1000) 5 10 0"
  let ?p = "players shortAllInGame ! 2"
  have i: "nonNegativeStacks (players ?init)"
    by (simp add: nonNegativeStacks_def createInitialGameState_def createPlayers_def upt_0_3)
  have g: "nonNegativeStacks (players shortAllInGame)"
    by (simp add: nonNegativeStacks_def shortAllInGame_def threeHanded_fields Let_def)
  have t: "nonNegativeStacks (players threeHanded)"
    by (simp add: nonNegativeStacks_def threeHanded_fields)
  obtain r where r: "resolveHand threeHanded = Some r"
    using resolveHand_threeHanded by auto
  have z: "stack (fst (commitChips ?p 20)) = 0" "status ?p = Active"
    by (simp_all add: shortAllInGame_def threeHanded_fields Let_def commitChips_def)
  from stacks_never_negative [OF i, of createDeck threeHanded 0 FOLD 0 ?p 20]
       stacks_never_negative [OF g, of createDeck afterShortAllIn 2 ALL_IN 120 ?p 20]
       stacks_never_negative [OF t, of createDeck r 0 FOLD 0 ?p 20]
       startHand_threeHanded applyAction_afterShortAllIn r z
  show ?thesis by simp
qed

text \<open>
  C7 at a table with 10 chips each and blinds of 5 and 10. The big blind is all-in at
  once and the small blind is all-in after its call; the street advances to the flop and
  stops there: no seat is left to act (\<^verbatim>\<open>currentActorIndex\<close> is -1), the hand is not over,
  three community cards lie on the table, both stacks are 0, and every further
  \<^verbatim>\<open>applyAction\<close> returns this state. Passive play never reaches the showdown.
\<close>

theorem heads_up_equal_stacks_stall:
  "map stack (createPlayers 2 10) = [10, 10]
   \<and> startHand (createInitialGameState (createPlayers 2 10) 5 10 0) createDeck = Some headsUpShort
   \<and> passiveStep headsUpShort = Some stalledHeadsUp
   \<and> phase stalledHeadsUp = Flop
   \<and> handOver stalledHeadsUp = False
   \<and> length (communityCards stalledHeadsUp) = 3
   \<and> map status (players stalledHeadsUp) = [AllIn, AllIn]
   \<and> map stack (players stalledHeadsUp) = [0, 0]
   \<and> currentActorIndex (betting stalledHeadsUp) = -1
   \<and> applyAction stalledHeadsUp i act amt = Some stalledHeadsUp
   \<and> passiveStep stalledHeadsUp = None
   \<and> playPassive 7 headsUpShort = None"
proof -
  note f = stalledHeadsUp_fields
  have n: "passiveStep stalledHeadsUp = None"
    using f(7) by (simp add: passiveStep_def at_def)
  have g: "playPassive (Suc (Suc m)) headsUpShort = None" for m
    using f(1,3) n by (simp add: headsUpShort_fields)
  have e: "(7::nat) = Suc (Suc 5)" by simp
  have "playPassive 7 headsUpShort = None" by (subst e) (rule g)
  with f n startHand_headsUpShort stalled_no_action [of i act amt] show ?thesis
    by (simp add: createPlayers_def upt_0_2)
qed

theorem heads_up_equal_stacks_stall_witness:
  "applyAction stalledHeadsUp 0 CHECK 0 = Some stalledHeadsUp
   \<and> applyAction stalledHeadsUp 1 CALL 0 = Some stalledHeadsUp
   \<and> phase stalledHeadsUp = Flop
   \<and> handOver stalledHeadsUp = False"
  using heads_up_equal_stacks_stall [of 0 CHECK 0] heads_up_equal_stacks_stall [of 1 CALL 0]
  by simp

text \<open>
  With stacks that exceed the big blind the engine deals every street. Two players created
  with equal stacks above the big blind (blinds with \<open>0 \<le> sb \<le> bb\<close> and \<open>0 < bb\<close>, the
  dealer at seat 0 or 1, a deck with at least the twelve cards a hand uses) play passively:
  after \<^verbatim>\<open>startHand\<close>, seven actions (one before the flop, two on each later street) lead
  through Preflop, Flop, Turn and River, each once and in this order, to Showdown with the
  hand over and exactly five community cards; further fuel changes nothing.
\<close>

theorem heads_up_passive_play:
  assumes "0 < bb" "0 \<le> sb" "sb \<le> bb" "bb < stk" "dealer = 0 \<or> dealer = 1"
    and "12 \<le> length shuffled"
  shows "\<exists>s0 s1 s2 s3 s4 s5 s6 s7.
           startHand (createInitialGameState (createPlayers 2 stk) sb bb dealer) shuffled = Some s0
         \<and> playPassive (7 + k) s0 = Some [s0, s1, s2, s3, s4, s5, s6, s7]
         \<and> map phase [s0, s1, s2, s3, s4, s5, s6, s7]
             = [Preflop, Flop, Flop, Turn, Turn, River, River, Showdown]
         \<and> map handOver [s0, s1, s2, s3, s4, s5, s6, s7]
             = [False, False, False, False, False, False, False, True]
         \<and> map (length \<circ> communityCards) [s0, s1, s2, s3, s4, s5, s6, s7] = [0, 3, 3, 4, 4, 5, 5, 5]"
proof -
  obtain s0 where s0: "startHand (createInitialGameState (createPlayers 2 stk) sb bb dealer) shuffled = Some s0"
    "preflopOpen s0" using startHand_headsUp [OF assms] by blast
  obtain s1 where s1: "passiveStep s0 = Some s1" "streetOpen Flop False s1"
    using step_preflop [OF s0(2)] by blast
  obtain s2 where s2: "passiveStep s1 = Some s2" "streetOpen Flop True s2"
    using step_first [OF s1(2)] by blast
  obtain s3 where s3: "passiveStep s2 = Some s3" "streetOpen Turn False s3"
    using step_second [OF s2(2), of Turn] by blast
  obtain s4 where s4: "passiveStep s3 = Some s4" "streetOpen Turn True s4"
    using step_first [OF s3(2)] by blast
  obtain s5 where s5: "passiveStep s4 = Some s5" "streetOpen River False s5"
    using step_second [OF s4(2), of River] by blast
  obtain s6 where s6: "passiveStep s5 = Some s6" "streetOpen River True s6"
    using step_first [OF s5(2)] by blast
  obtain s7 where s7: "passiveStep s6 = Some s7" "phase s7 = Showdown" "handOver s7"
    "length (communityCards s7) = 5"
    using step_river [OF s6(2)] by blast
  note f0 = preflopOpen_facts [OF s0(2)]
  note f1 = streetOpen_facts [OF s1(2)] and f2 = streetOpen_facts [OF s2(2)]
    and f3 = streetOpen_facts [OF s3(2)] and f4 = streetOpen_facts [OF s4(2)]
    and f5 = streetOpen_facts [OF s5(2)] and f6 = streetOpen_facts [OF s6(2)]
  have p7: "playPassive k s7 = Some [s7]" by (rule playPassive_over [OF s7(3)])
  have p6: "playPassive (Suc k) s6 = Some [s6, s7]"
    using f6 s7(1) p7 by (intro playPassive_step) simp_all
  have p5: "playPassive (Suc (Suc k)) s5 = Some [s5, s6, s7]"
    using f5 s6(1) p6 by (intro playPassive_step) simp_all
  have p4: "playPassive (Suc (Suc (Suc k))) s4 = Some [s4, s5, s6, s7]"
    using f4 s5(1) p5 by (intro playPassive_step) simp_all
  have p3: "playPassive (Suc (Suc (Suc (Suc k)))) s3 = Some [s3, s4, s5, s6, s7]"
    using f3 s4(1) p4 by (intro playPassive_step) simp_all
  have p2: "playPassive (Suc (Suc (Suc (Suc (Suc k))))) s2 = Some [s2, s3, s4, s5, s6, s7]"
    using f2 s3(1) p3 by (intro playPassive_step) simp_all
  have p1: "playPassive (Suc (Suc (Suc (Suc (Suc (Suc k)))))) s1 = Some [s1, s2, s3, s4, s5, s6, s7]"
    using f1 s2(1) p2 by (intro playPassive_step) simp_all
  have p0: "playPassive (Suc (Suc (Suc (Suc (Suc (Suc (Suc k))))))) s0 = Some [s0, s1, s2, s3, s4, s5, s6, s7]"
    using f0 s1(1) p1 by (intro playPassive_step) simp_all
  have k7: "7 + k = Suc (Suc (Suc (Suc (Suc (Suc (Suc k))))))" by simp
  have pp: "playPassive (7 + k) s0 = Some [s0, s1, s2, s3, s4, s5, s6, s7]"
    by (simp only: k7 p0)
  have "startHand (createInitialGameState (createPlayers 2 stk) sb bb dealer) shuffled = Some s0
         \<and> playPassive (7 + k) s0 = Some [s0, s1, s2, s3, s4, s5, s6, s7]
         \<and> map phase [s0, s1, s2, s3, s4, s5, s6, s7]
             = [Preflop, Flop, Flop, Turn, Turn, River, River, Showdown]
         \<and> map handOver [s0, s1, s2, s3, s4, s5, s6, s7]
             = [False, False, False, False, False, False, False, True]
         \<and> map (length \<circ> communityCards) [s0, s1, s2, s3, s4, s5, s6, s7] = [0, 3, 3, 4, 4, 5, 5, 5]"
    using s0(1) pp f0 f1 f2 f3 f4 f5 f6 s7(2-4) by simp
  then show ?thesis by - ((rule exI)+, assumption)
qed

theorem heads_up_passive_play_witness:
  "map_option (map phase)
      (Option.bind (startHand (createInitialGameState (createPlayers 2 1000) 5 10 0) createDeck)
         (playPassive 7))
     = Some [Preflop, Flop, Flop, Turn, Turn, River, River, Showdown]
   \<and> map_option (map (length \<circ> communityCards))
      (Option.bind (startHand (createInitialGameState (createPlayers 2 1000) 5 10 0) createDeck)
         (playPassive 7))
     = Some [0, 3, 3, 4, 4, 5, 5, 5]"
proof -
  have d: "12 \<le> length createDeck" by (simp add: createDeck_def SUITS_def RANKS_def)
  from heads_up_passive_play [of 10 5 1000 0 createDeck 0, OF _ _ _ _ _ d]
  obtain s0 s1 s2 s3 s4 s5 s6 s7 where
    "startHand (createInitialGameState (createPlayers 2 1000) 5 10 0) createDeck = Some s0"
    "playPassive (7 + 0) s0 = Some [s0, s1, s2, s3, s4, s5, s6, s7]"
    "map phase [s0, s1, s2, s3, s4, s5, s6, s7] = [Preflop, Flop, Flop, Turn, Turn, River, River, Showdown]"
    "map (length \<circ> communityCards) [s0, s1, s2, s3, s4, s5, s6, s7] = [0, 3, 3, 4, 4, 5, 5, 5]"
    by auto
  then show ?thesis by simp
qed
end
